theory Spec2Isabelle
  imports Complex_Main "HOL-Library.Sublist"
begin

section \<open>Python strings\<close>

text \<open>
  Strings are \<open>char list\<close>. The helpers below are the \<open>str\<close> methods the crawler
  uses, on ASCII text: \<open>lower\<close>, \<open>in\<close>, \<open>startswith\<close>/\<open>endswith\<close>, \<open>rstrip\<close>,
  \<open>split\<close>, \<open>join\<close>.
\<close>

datatype error = ValueError

definition lower_char :: "char \<Rightarrow> char" where
  "lower_char c =
     (case map_of (zip ''ABCDEFGHIJKLMNOPQRSTUVWXYZ'' ''abcdefghijklmnopqrstuvwxyz'') c of
        Some d \<Rightarrow> d
      | None \<Rightarrow> c)"

definition lower :: "string \<Rightarrow> string" where
  "lower s = map lower_char s"

text \<open>\<open>t in s\<close> for strings: \<open>t\<close> occurs as a contiguous piece of \<open>s\<close>.\<close>

fun py_in :: "string \<Rightarrow> string \<Rightarrow> bool" where
  "py_in t [] = (t = [])"
| "py_in t (c # s) = (prefix t (c # s) \<or> py_in t s)"

definition endswith :: "string \<Rightarrow> string \<Rightarrow> bool" where
  "endswith s e = prefix (rev e) (rev s)"

definition rstrip :: "char \<Rightarrow> string \<Rightarrow> string" where
  "rstrip c s = rev (dropWhile (\<lambda>x. x = c) (rev s))"

text \<open>\<open>s.split(c, 1)\<close> when \<open>c\<close> occurs in \<open>s\<close>: the text before the first \<open>c\<close> and the text after it.\<close>

definition split1 :: "char \<Rightarrow> string \<Rightarrow> string \<times> string" where
  "split1 c s = (takeWhile (\<lambda>x. x \<noteq> c) s, drop 1 (dropWhile (\<lambda>x. x \<noteq> c) s))"

text \<open>\<open>s.split(c)\<close>: always at least one piece.\<close>

fun split_on :: "char \<Rightarrow> string \<Rightarrow> string list" where
  "split_on c [] = [[]]"
| "split_on c (x # xs) =
     (if x = c then [] # split_on c xs
      else (case split_on c xs of
              [] \<Rightarrow> [[x]]
            | p # ps \<Rightarrow> (x # p) # ps))"

fun join :: "string \<Rightarrow> string list \<Rightarrow> string" where
  "join sep [] = []"
| "join sep [x] = x"
| "join sep (x # y # ys) = x @ sep @ join sep (y # ys)"

section \<open>urllib.parse.urlparse\<close>

text \<open>
  \<open>urlparse\<close> of the standard library (CPython 3.11), step by step. Two checks of the
  library are taken as parameters, since they run Unicode and IP-address code that is not
  part of the crawler: \<open>check_bracketed_host\<close> (a netloc with \<open>[\<close> and \<open>]\<close>) and
  \<open>checknetloc\<close> (a netloc with non-ASCII characters); each returns \<open>False\<close> where the
  library raises \<open>ValueError\<close>. \<open>tld_extract\<close> is \<open>tldextract.extract\<close>: subdomain,
  domain and suffix of a URL.
\<close>

record pylib =
  check_bracketed_host :: "string \<Rightarrow> bool"
  checknetloc :: "string \<Rightarrow> bool"
  tld_extract :: "string \<Rightarrow> string \<times> string \<times> string"

record parse_result =
  scheme :: string
  netloc :: string
  path :: string
  params :: string
  query :: string
  fragment :: string

definition scheme_chars :: string where
  "scheme_chars =
     ''abcdefghijklmnopqrstuvwxyzABCDEFGHIJKLMNOPQRSTUVWXYZ0123456789+-.''"

definition ascii_letters :: string where
  "ascii_letters = ''abcdefghijklmnopqrstuvwxyzABCDEFGHIJKLMNOPQRSTUVWXYZ''"

definition c0_control_or_space :: "char \<Rightarrow> bool" where
  "c0_control_or_space c = ((of_char c :: nat) \<le> 32)"

definition unsafe_byte :: "char \<Rightarrow> bool" where
  "unsafe_byte c = (c = CHR 0x09 \<or> c = CHR 0x0D \<or> c = CHR 0x0A)"

definition isascii :: "string \<Rightarrow> bool" where
  "isascii s = (\<forall>c \<in> set s. (of_char c :: nat) < 128)"

text \<open>\<open>url.lstrip(_WHATWG_C0_CONTROL_OR_SPACE)\<close>, then the removal of tab, CR and LF.\<close>

definition clean_url :: "string \<Rightarrow> string" where
  "clean_url url = filter (\<lambda>c. \<not> unsafe_byte c) (dropWhile c0_control_or_space url)"

text \<open>The scheme: the text before the first colon, when it starts with a letter and
  holds scheme characters only. Returns the scheme (lowered) and the rest.\<close>

definition split_scheme :: "string \<Rightarrow> string \<times> string" where
  "split_scheme url =
     (let pre = takeWhile (\<lambda>c. c \<noteq> CHR '':'') url in
      if CHR '':'' \<in> set url \<and> pre \<noteq> [] \<and> hd url \<in> set ascii_letters
         \<and> (\<forall>c \<in> set pre. c \<in> set scheme_chars)
      then (lower pre, drop (Suc (length pre)) url)
      else ([], url))"

definition netloc_delim :: "char \<Rightarrow> bool" where
  "netloc_delim c = (c = CHR ''/'' \<or> c = CHR ''?'' \<or> c = CHR ''#'')"

text \<open>The bracket checks of \<open>urlsplit\<close> on the netloc: \<open>False\<close> where it raises
  \<open>ValueError\<close>.\<close>

definition bracket_checks :: "pylib \<Rightarrow> string \<Rightarrow> bool" where
  "bracket_checks L nl =
     (if (CHR ''['' \<in> set nl \<and> CHR '']'' \<notin> set nl)
         \<or> (CHR '']'' \<in> set nl \<and> CHR ''['' \<notin> set nl)
      then False
      else if CHR ''['' \<in> set nl \<and> CHR '']'' \<in> set nl
      then check_bracketed_host L
             (takeWhile (\<lambda>c. c \<noteq> CHR '']'')
                (drop 1 (dropWhile (\<lambda>c. c \<noteq> CHR ''['') nl)))
      else True)"

text \<open>\<open>_splitnetloc(url, 2)\<close>, run when \<open>url[:2] == '//'\<close>.\<close>

definition splitnetloc2 :: "string \<Rightarrow> string \<times> string" where
  "splitnetloc2 url =
     (takeWhile (\<lambda>c. \<not> netloc_delim c) (drop 2 url),
      dropWhile (\<lambda>c. \<not> netloc_delim c) (drop 2 url))"

definition split_netloc :: "pylib \<Rightarrow> string \<Rightarrow> error + (string \<times> string)" where
  "split_netloc L url =
     (if take 2 url = ''//'' then
        (if bracket_checks L (fst (splitnetloc2 url)) then Inr (splitnetloc2 url)
         else Inl ValueError)
      else Inr ([], url))"

definition split_fragment :: "string \<Rightarrow> string \<times> string" where
  "split_fragment url = (if CHR ''#'' \<in> set url then split1 (CHR ''#'') url else (url, []))"

definition split_query :: "string \<Rightarrow> string \<times> string" where
  "split_query url = (if CHR ''?'' \<in> set url then split1 (CHR ''?'') url else (url, []))"

definition uses_params :: "string list" where
  "uses_params = ['''', ''ftp'', ''hdl'', ''prospero'', ''http'', ''imap'',
                  ''https'', ''shttp'', ''rtsp'', ''rtsps'', ''rtspu'', ''sip'',
                  ''sips'', ''mms'', ''sftp'', ''tel'']"

definition splitparams :: "string \<Rightarrow> string \<times> string" where
  "splitparams url =
     (if CHR ''/'' \<in> set url then
        (let seg = rev (takeWhile (\<lambda>c. c \<noteq> CHR ''/'') (rev url));
             dir = rev (dropWhile (\<lambda>c. c \<noteq> CHR ''/'') (rev url)) in
         if CHR '';'' \<in> set seg
         then (dir @ takeWhile (\<lambda>c. c \<noteq> CHR '';'') seg,
               drop 1 (dropWhile (\<lambda>c. c \<noteq> CHR '';'') seg))
         else (url, []))
      else split1 (CHR '';'') url)"

definition urlparse :: "pylib \<Rightarrow> string \<Rightarrow> error + parse_result" where
  "urlparse L url0 =
     (let (sch, url1) = split_scheme (clean_url url0) in
      case split_netloc L url1 of
        Inl e \<Rightarrow> Inl e
      | Inr (nl, url2) \<Rightarrow>
          (let (url3, frag) = split_fragment url2;
               (url4, qry) = split_query url3 in
           if nl \<noteq> [] \<and> \<not> isascii nl \<and> \<not> checknetloc L nl then Inl ValueError
           else
             (let (pth, prm) = (if sch \<in> set uses_params \<and> CHR '';'' \<in> set url4
                                then splitparams url4 else (url4, []))
              in Inr \<lparr>scheme = sch, netloc = nl, path = pth, params = prm,
                       query = qry, fragment = frag\<rparr>)))"

section \<open>WebsiteScraper: booking URLs and normalisation\<close>

definition potential_booking_domains :: "string list" where
  "potential_booking_domains = [''booking'', ''reserve'', ''reservation'', ''book'']"

definition booking_path_terms :: "string list" where
  "booking_path_terms = [''book'', ''reserve'', ''reservation'']"

definition booking_parsed :: "parse_result \<Rightarrow> bool" where
  "booking_parsed p =
     (if \<exists>t \<in> set potential_booking_domains. py_in t (lower (netloc p)) then True
      else if \<exists>t \<in> set booking_path_terms. py_in t (lower (path p)) then True
      else if query p \<noteq> [] \<and> (\<exists>t \<in> set booking_path_terms. py_in t (lower (query p)))
      then True
      else False)"

definition is_booking_url :: "pylib \<Rightarrow> string \<Rightarrow> error + bool" where
  "is_booking_url L url =
     (case urlparse L url of Inl e \<Rightarrow> Inl e | Inr p \<Rightarrow> Inr (booking_parsed p))"

definition volatile_keys :: "string list" where
  "volatile_keys = [''lang'', ''language'', ''currency'', ''nsid'', ''sessionid'']"

text \<open>\<open>query_params[key] = value\<close> on a \<open>dict\<close>: a key keeps the place of its first
  insertion and takes the last value.\<close>

fun dict_set :: "(string \<times> string) list \<Rightarrow> string \<Rightarrow> string \<Rightarrow> (string \<times> string) list" where
  "dict_set [] k v = [(k, v)]"
| "dict_set ((k', v') # m) k v =
     (if k' = k then (k', v) # m else (k', v') # dict_set m k v)"

fun booking_query_params ::
  "(string \<times> string) list \<Rightarrow> string list \<Rightarrow> (string \<times> string) list" where
  "booking_query_params m [] = m"
| "booking_query_params m (param # ps) =
     (if CHR ''='' \<in> set param then
        (let (key, val) = split1 (CHR ''='') param in
         if lower key \<notin> set volatile_keys
         then booking_query_params (dict_set m key val) ps
         else booking_query_params m ps)
      else booking_query_params m ps)"

definition normalize_parsed :: "parse_result \<Rightarrow> bool \<Rightarrow> string" where
  "normalize_parsed p booking =
     (let normalized = scheme p @ ''://'' @ netloc p @ path p in
      rstrip (CHR ''/'')
        (if query p \<noteq> [] then
           (if booking then
              (let query_params = booking_query_params [] (split_on (CHR ''&'') (query p)) in
               if query_params \<noteq> []
               then normalized @ ''?'' @ join ''&'' (map (\<lambda>(k, v). k @ ''='' @ v) query_params)
               else normalized)
            else normalized @ ''?'' @ query p)
         else normalized))"

definition normalize_url :: "pylib \<Rightarrow> string \<Rightarrow> error + string" where
  "normalize_url L url =
     (case urlparse L url of
        Inl e \<Rightarrow> Inl e
      | Inr p \<Rightarrow>
          (if query p \<noteq> [] then
             (case is_booking_url L url of
                Inl e \<Rightarrow> Inl e
              | Inr b \<Rightarrow> Inr (normalize_parsed p b))
           else Inr (normalize_parsed p False)))"

text \<open>What urlparse does once the URL is cleaned and the scheme and netloc are split off.\<close>
definition parse_tail :: "pylib \<Rightarrow> string \<Rightarrow> string \<Rightarrow> string \<Rightarrow> string \<Rightarrow> error + parse_result" where
  "parse_tail L sch nl url3 frag =
     (let (url4, qry) = split_query url3 in
           if nl \<noteq> [] \<and> \<not> isascii nl \<and> \<not> checknetloc L nl then Inl ValueError
           else
             (let (pth, prm) = (if sch \<in> set uses_params \<and> CHR '';'' \<in> set url4
                                then splitparams url4 else (url4, []))
              in Inr \<lparr>scheme = sch, netloc = nl, path = pth, params = prm,
                       query = qry, fragment = frag\<rparr>))"

text \<open>The query parameters that \<open>normalize_url\<close> keeps for a booking URL: those of the
  form \<open>key=value\<close> whose key, lowered, is not one of the volatile keys.\<close>

definition kept_param :: "string \<Rightarrow> bool" where
  "kept_param param =
     (CHR ''='' \<in> set param \<and> lower (fst (split1 (CHR ''='') param)) \<notin> set volatile_keys)"

definition kept_params :: "string \<Rightarrow> string list" where
  "kept_params q = filter kept_param (split_on (CHR ''&'') q)"

section \<open>WebsiteScraper: scope\<close>

text \<open>The fields of a \<open>WebsiteScraper\<close> that never change after \<open>__init__\<close>.
  \<open>root_domain\<close> is \<open>domain.suffix\<close> of the base URL as \<open>tldextract\<close> gives it.
  \<open>delay\<close> is a float, taken as a real number; \<open>__init__\<close> stores it unchecked.\<close>

record scraper =
  base_url :: string
  root_domain :: string
  delay :: real
  max_booking_urls :: int

definition new_scraper :: "pylib \<Rightarrow> string \<Rightarrow> real \<Rightarrow> int \<Rightarrow> error + scraper" where
  "new_scraper L url dly maxb =
     (case urlparse L url of
        Inl e \<Rightarrow> Inl e
      | Inr _ \<Rightarrow>
          (case tld_extract L url of
             (sub, dmn, suf) \<Rightarrow>
               Inr \<lparr>base_url = url, root_domain = dmn @ ''.'' @ suf, delay = dly,
                     max_booking_urls = maxb\<rparr>))"

definition is_same_site :: "pylib \<Rightarrow> scraper \<Rightarrow> string \<Rightarrow> error + bool" where
  "is_same_site L S url =
     (case urlparse L url of
        Inl e \<Rightarrow> Inl e
      | Inr parsed \<Rightarrow>
          if netloc parsed = [] then Inr False
          else (case tld_extract L url of
                  (sub, dmn, suf) \<Rightarrow> Inr (dmn @ ''.'' @ suf = root_domain S)))"

definition file_extensions :: "string list" where
  "file_extensions = [''.pdf'', ''.jpg'', ''.jpeg'', ''.png'', ''.gif'', ''.svg'',
                      ''.css'', ''.js'', ''.ico'', ''.xml'', ''.zip'', ''.doc'', ''.docx'']"

text \<open>\<open>WebsiteScraper.is_valid_url\<close>. Nothing in it catches an exception, so the
  \<open>ValueError\<close> of \<open>urlparse\<close> goes to the caller.\<close>

definition is_valid_url :: "pylib \<Rightarrow> scraper \<Rightarrow> string \<Rightarrow> error + bool" where
  "is_valid_url L S url =
     (case urlparse L url of
        Inl e \<Rightarrow> Inl e
      | Inr parsed \<Rightarrow>
          if netloc parsed = [] then Inr False
          else (case is_same_site L S url of
                  Inl e \<Rightarrow> Inl e
                | Inr same \<Rightarrow>
                    if \<not> same then
                      (if (\<exists>t \<in> set potential_booking_domains. py_in t (lower (netloc parsed)))
                          \<and> py_in (root_domain S) (lower (netloc parsed))
                       then Inr True
                       else Inr False)
                    else if \<exists>ext \<in> set file_extensions. endswith (lower (path parsed)) ext
                    then Inr False
                    else Inr True))"

section \<open>ImageDownloader: scope\<close>

record downloader =
  img_base_url :: string
  domain :: string
  min_width :: int
  min_height :: int
  min_size_kb :: int
  img_delay :: real
  max_pages :: int

text \<open>\<open>os.path.splitext(p)[1]\<close>: the extension of the last path component, from its
  last dot, unless only dots come before it.\<close>

definition splitext_ext :: "string \<Rightarrow> string" where
  "splitext_ext p =
     (let seg = rev (takeWhile (\<lambda>c. c \<noteq> CHR ''/'') (rev p));
          stem = rev (drop 1 (dropWhile (\<lambda>c. c \<noteq> CHR ''.'') (rev seg)));
          ext = CHR ''.'' # rev (takeWhile (\<lambda>c. c \<noteq> CHR ''.'') (rev seg)) in
      if CHR ''.'' \<in> set seg \<and> (\<exists>c \<in> set stem. c \<noteq> CHR ''.'') then ext else [])"

definition cdn_patterns :: "string list" where
  "cdn_patterns = [''cloudfront.net'', ''akamaized.net'', ''cloudinary.com'', ''imgix.net'',
                   ''amazonaws.com'']"

definition image_extensions :: "string list" where
  "image_extensions = [''.jpg'', ''.jpeg'', ''.png'', ''.gif'', ''.webp'']"

text \<open>\<open>'.'.join(self.domain.split('.')[-2:])\<close>\<close>

definition last_two_labels :: "string \<Rightarrow> string" where
  "last_two_labels d =
     (let ls = split_on (CHR ''.'') d in join ''.'' (drop (length ls - 2) ls))"

text \<open>\<open>ImageDownloader.is_valid_url\<close>: the whole body is inside \<open>try\<close>, and the bare
  \<open>except\<close> returns \<open>False\<close>.\<close>

definition img_is_valid_url :: "pylib \<Rightarrow> downloader \<Rightarrow> string \<Rightarrow> bool" where
  "img_is_valid_url L D url =
     (case urlparse L url of
        Inl e \<Rightarrow> False
      | Inr parsed_url \<Rightarrow>
          if netloc parsed_url = [] then False
          else if netloc parsed_url = domain D then True
          else if py_in (last_two_labels (domain D)) (netloc parsed_url) then True
          else if \<exists>cdn \<in> set cdn_patterns. py_in cdn (netloc parsed_url)
          then lower (splitext_ext (path parsed_url)) \<in> set image_extensions
          else False)"

section \<open>WebsiteScraper: the crawl\<close>

text \<open>
  A fetched page, as the scraper sees it after parsing: its markdown text and the lists
  of absolute URLs that \<open>extract_language_variants\<close>, \<open>extract_header_menu_links\<close> and
  \<open>extract_booking_links\<close> return for it, and \<open>all_links\<close>, the \<open>href\<close> of every anchor
  (not empty, not starting with \<open>#\<close> or \<open>javascript:\<close>) joined with the page URL. HTML
  parsing and \<open>urljoin\<close> are outside the model.

  The network is a function of the number of requests made so far and the URL, so the
  same URL may answer differently later in the session.
\<close>

record page =
  content :: string
  language_links :: "string list"
  menu_links :: "string list"
  booking_links :: "string list"
  all_links :: "string list"

datatype response = RequestException | Response nat page

type_synonym web = "nat \<Rightarrow> string \<Rightarrow> response"

text \<open>The mutable fields of the scraper, and two logs of what it asked of the network:
  \<open>requested\<close> lists, in order, the URL of every \<open>requests.get\<close> of the session,
  \<open>fetched\<close> those among them that \<open>_process_url\<close> made.
  \<open>markdown_content\<close> is a \<open>dict\<close>, kept in insertion order.\<close>

record crawl_state =
  visited_urls :: "string set"
  markdown_content :: "(string \<times> string) list"
  main_page_links :: "string set"
  booking_urls_crawled :: int
  booking_domains_seen :: "string set"
  requested :: "string list"
  fetched :: "string list"

definition init_state :: crawl_state where
  "init_state = \<lparr>visited_urls = {}, markdown_content = [], main_page_links = {},
                  booking_urls_crawled = 0, booking_domains_seen = {},
                  requested = [], fetched = []\<rparr>"

text \<open>The loops of \<open>_process_url\<close> and of the seeding that turn links into new URLs:
  a link is taken when \<open>is_valid_url\<close> accepts it and its normal form is not visited
  (and, for the last loop of \<open>_process_url\<close>, not yet in the list).\<close>

fun collect_links ::
  "pylib \<Rightarrow> scraper \<Rightarrow> string set \<Rightarrow> bool \<Rightarrow> string list \<Rightarrow> string list \<Rightarrow> error + string list"
where
  "collect_links L S V uniq acc [] = Inr acc"
| "collect_links L S V uniq acc (link # links) =
     (case is_valid_url L S link of
        Inl e \<Rightarrow> Inl e
      | Inr ok \<Rightarrow>
          if \<not> ok then collect_links L S V uniq acc links
          else (case normalize_url L link of
                  Inl e \<Rightarrow> Inl e
                | Inr normalized_link \<Rightarrow>
                    if normalized_link \<notin> V \<and> (uniq \<longrightarrow> normalized_link \<notin> set acc)
                    then collect_links L S V uniq (acc @ [normalized_link]) links
                    else collect_links L S V uniq acc links))"

definition extract_new_urls ::
  "pylib \<Rightarrow> scraper \<Rightarrow> crawl_state \<Rightarrow> page \<Rightarrow> error + string list" where
  "extract_new_urls L S st pg =
     (case collect_links L S (visited_urls st) False [] (language_links pg) of
        Inl e \<Rightarrow> Inl e
      | Inr a \<Rightarrow>
     (case collect_links L S (visited_urls st) False a (menu_links pg) of
        Inl e \<Rightarrow> Inl e
      | Inr b \<Rightarrow>
     (case (if booking_urls_crawled st < max_booking_urls S
            then collect_links L S (visited_urls st) False b (booking_links pg)
            else Inr b) of
        Inl e \<Rightarrow> Inl e
      | Inr c \<Rightarrow> collect_links L S (visited_urls st) True c (all_links pg))))"

text \<open>The booking limit of \<open>_process_url\<close>. The answer \<open>False\<close> is the early
  \<open>return []\<close>.\<close>

definition booking_gate ::
  "pylib \<Rightarrow> scraper \<Rightarrow> crawl_state \<Rightarrow> string \<Rightarrow> crawl_state \<times> (error + bool)" where
  "booking_gate L S st url =
     (case is_booking_url L url of
        Inl e \<Rightarrow> (st, Inl e)
      | Inr booking \<Rightarrow>
          if \<not> booking then (st, Inr True)
          else (case urlparse L url of
                  Inl e \<Rightarrow> (st, Inl e)
                | Inr parsed \<Rightarrow>
                    if netloc parsed \<in> booking_domains_seen st then
                      (if booking_urls_crawled st \<ge> max_booking_urls S then (st, Inr False)
                       else (st\<lparr>booking_urls_crawled := booking_urls_crawled st + 1\<rparr>,
                             Inr True))
                    else
                      (st\<lparr>booking_domains_seen := insert (netloc parsed) (booking_domains_seen st),
                          booking_urls_crawled := booking_urls_crawled st + 1\<rparr>,
                       Inr True)))"

text \<open>The \<open>try\<close> block of \<open>_process_url\<close>: any exception inside it gives \<open>[]\<close>.\<close>

definition fetch_and_extract ::
  "pylib \<Rightarrow> scraper \<Rightarrow> web \<Rightarrow> crawl_state \<Rightarrow> string \<Rightarrow> crawl_state \<times> string list" where
  "fetch_and_extract L S W st url =
     (let st1 = st\<lparr>requested := requested st @ [url], fetched := fetched st @ [url]\<rparr> in
      case W (length (requested st)) url of
        RequestException \<Rightarrow> (st1, [])
      | Response status pg \<Rightarrow>
          if status \<noteq> 200 then (st1, [])
          else
            (let st2 = st1\<lparr>markdown_content :=
                             dict_set (markdown_content st1) url (content pg)\<rparr> in
             case extract_new_urls L S st2 pg of
               Inl e \<Rightarrow> (st2, [])
             | Inr new_urls \<Rightarrow> (st2, new_urls)))"

text \<open>\<open>_process_url\<close>. Between the booking limit and the \<open>try\<close> block stands
  \<open>time.sleep(self.delay)\<close>, which raises \<open>ValueError\<close> for a negative delay; nothing
  catches it there, so it goes to the caller, with the URL already marked visited and
  counted.\<close>

definition process_url ::
  "pylib \<Rightarrow> scraper \<Rightarrow> web \<Rightarrow> crawl_state \<Rightarrow> string \<Rightarrow> crawl_state \<times> (error + string list)"
where
  "process_url L S W st url =
     (case normalize_url L url of
        Inl e \<Rightarrow> (st, Inl e)
      | Inr normalized_url \<Rightarrow>
          if normalized_url \<in> visited_urls st then (st, Inr [])
          else
            (let st1 = st\<lparr>visited_urls := insert normalized_url (visited_urls st)\<rparr> in
             case booking_gate L S st1 url of
               (st2, Inl e) \<Rightarrow> (st2, Inl e)
             | (st2, Inr go) \<Rightarrow>
                 if \<not> go then (st2, Inr [])
                 else if delay S < 0 then (st2, Inl ValueError)
                 else (case fetch_and_extract L S W st2 url of
                         (st3, new_urls) \<Rightarrow> (st3, Inr new_urls))))"

definition priority_paths :: "string list" where
  "priority_paths =
     [''/rooms'', ''/suites'', ''/accommodations'', ''/lodging'',
      ''/facilities'', ''/amenities'', ''/services'',
      ''/photos'', ''/gallery'', ''/images'',
      ''/spa'', ''/restaurant'', ''/dining'',
      ''/en/rooms'', ''/en/suites'', ''/en/accommodations'', ''/en/facilities'',
      ''/en/amenities'', ''/en/photos'', ''/en/gallery'', ''/en/dining'',
      ''/fr/chambres'', ''/de/zimmer'', ''/es/habitaciones'', ''/it/camere'',
      ''/room-types'', ''/our-rooms'', ''/guest-rooms'', ''/our-suites'',
      ''/hotel-facilities'', ''/hotel-amenities'', ''/photo-gallery'',
      ''/booking'', ''/reserve'', ''/reservation'', ''/book-now'', ''/book'',
      ''/en/booking'', ''/en/reserve'', ''/en/book-now'']"

definition language_prefixes :: "string list" where
  "language_prefixes =
     [''en'', ''fr'', ''de'', ''es'', ''it'', ''nl'', ''pt'', ''ru'', ''zh'', ''ja'', ''ko'']"

text \<open>\<open>is_priority_url\<close>, without its note of the language subdomain in
  \<open>language_subdomains\<close>, a set that nothing reads.\<close>

definition is_priority_url :: "pylib \<Rightarrow> crawl_state \<Rightarrow> string \<Rightarrow> error + bool" where
  "is_priority_url L st url =
     (case urlparse L url of
        Inl e \<Rightarrow> Inl e
      | Inr parsed \<Rightarrow>
          (case tld_extract L url of
             (sub, dmn, suf) \<Rightarrow>
               if sub \<in> set language_prefixes then Inr True
               else if \<exists>t \<in> set potential_booking_domains. py_in t (lower (netloc parsed))
               then Inr True
               else Inr ((\<exists>pr \<in> set priority_paths. py_in pr (lower (path parsed)))
                         \<or> url \<in> main_page_links st)))"

text \<open>The first loop of the seeding: the valid links of the main page, normalised, go
  into \<open>main_page_links\<close>. An exception stops the loop, and \<open>crawl\<close> with it.\<close>

fun add_main_page_links ::
  "pylib \<Rightarrow> scraper \<Rightarrow> string set \<Rightarrow> string list \<Rightarrow> string set \<times> error option" where
  "add_main_page_links L S M [] = (M, None)"
| "add_main_page_links L S M (full_url # links) =
     (case is_valid_url L S full_url of
        Inl e \<Rightarrow> (M, Some e)
      | Inr ok \<Rightarrow>
          if \<not> ok then add_main_page_links L S M links
          else (case normalize_url L full_url of
                  Inl e \<Rightarrow> (M, Some e)
                | Inr normalized_url \<Rightarrow>
                    add_main_page_links L S (insert normalized_url M) links))"

text \<open>The seeding of \<open>crawl\<close> when the main page answers 200: the new state and
  \<open>priority_urls\<close>, or the exception.\<close>

definition seed ::
  "pylib \<Rightarrow> scraper \<Rightarrow> crawl_state \<Rightarrow> page \<Rightarrow> crawl_state \<times> (error + string list)" where
  "seed L S st pg =
     (case add_main_page_links L S (main_page_links st) (all_links pg) of
        (M, Some e) \<Rightarrow> (st\<lparr>main_page_links := M\<rparr>, Inl e)
      | (M, None) \<Rightarrow>
          (let st1 = st\<lparr>main_page_links := M\<rparr> in
           case collect_links L S (visited_urls st1) False [] (language_links pg) of
             Inl e \<Rightarrow> (st1, Inl e)
           | Inr a \<Rightarrow>
          (case collect_links L S (visited_urls st1) False a (menu_links pg) of
             Inl e \<Rightarrow> (st1, Inl e)
           | Inr b \<Rightarrow>
               (st1, collect_links L S (visited_urls st1) False b (booking_links pg)))))"

text \<open>The menu links of a language subdomain go to \<open>urls_to_visit\<close>; the loop is inside
  a \<open>try\<close> whose handler only logs, so an exception ends it and keeps what was added.\<close>

fun add_subdomain_links ::
  "pylib \<Rightarrow> scraper \<Rightarrow> string set \<Rightarrow> string list \<Rightarrow> string list \<Rightarrow> string list" where
  "add_subdomain_links L S V urls_to_visit [] = urls_to_visit"
| "add_subdomain_links L S V urls_to_visit (link # links) =
     (case is_valid_url L S link of
        Inl e \<Rightarrow> urls_to_visit
      | Inr ok \<Rightarrow>
          if ok \<and> link \<notin> V then
            (case normalize_url L link of
               Inl e \<Rightarrow> urls_to_visit
             | Inr normalized_url \<Rightarrow>
                 add_subdomain_links L S V (urls_to_visit @ [normalized_url]) links)
          else add_subdomain_links L S V urls_to_visit links)"

definition explore_subdomain ::
  "pylib \<Rightarrow> scraper \<Rightarrow> web \<Rightarrow> crawl_state \<Rightarrow> string list \<Rightarrow> string
     \<Rightarrow> crawl_state \<times> string list" where
  "explore_subdomain L S W st urls_to_visit url =
     (let st1 = st\<lparr>requested := requested st @ [url]\<rparr> in
      case W (length (requested st)) url of
        RequestException \<Rightarrow> (st1, urls_to_visit)
      | Response status pg \<Rightarrow>
          if status = 200
          then (st1, add_subdomain_links L S (visited_urls st1) urls_to_visit (menu_links pg))
          else (st1, urls_to_visit))"

text \<open>The loop over \<open>priority_urls\<close>. The result of \<open>_process_url\<close> is dropped here.\<close>

fun priority_loop ::
  "pylib \<Rightarrow> scraper \<Rightarrow> web \<Rightarrow> crawl_state \<Rightarrow> string list \<Rightarrow> string list
     \<Rightarrow> (crawl_state \<times> string list) \<times> error option" where
  "priority_loop L S W st urls_to_visit [] = ((st, urls_to_visit), None)"
| "priority_loop L S W st urls_to_visit (url # urls) =
     (if url \<in> visited_urls st then priority_loop L S W st urls_to_visit urls
      else
        (case process_url L S W st url of
           (st1, Inl e) \<Rightarrow> ((st1, urls_to_visit), Some e)
         | (st1, Inr new_urls) \<Rightarrow>
             (case urlparse L url of
                Inl e \<Rightarrow> ((st1, urls_to_visit), Some e)
              | Inr parsed \<Rightarrow>
                  (case tld_extract L url of
                     (sub, dmn, suf) \<Rightarrow>
                       if sub \<in> set language_prefixes then
                         (case explore_subdomain L S W st1 urls_to_visit url of
                            (st2, urls_to_visit2) \<Rightarrow>
                              priority_loop L S W st2 urls_to_visit2 urls)
                       else priority_loop L S W st1 urls_to_visit urls))))"

text \<open>\<open>urls_to_visit.sort(key=...)\<close>: the keys are computed first, for every URL; the
  sort is stable, priority URLs first.\<close>

fun priority_keys :: "pylib \<Rightarrow> crawl_state \<Rightarrow> string list \<Rightarrow> error + bool list" where
  "priority_keys L st [] = Inr []"
| "priority_keys L st (u # us) =
     (case is_priority_url L st u of
        Inl e \<Rightarrow> Inl e
      | Inr k \<Rightarrow> (case priority_keys L st us of Inl e \<Rightarrow> Inl e | Inr ks \<Rightarrow> Inr (k # ks)))"

definition sort_by_priority :: "pylib \<Rightarrow> crawl_state \<Rightarrow> string list \<Rightarrow> error + string list" where
  "sort_by_priority L st us =
     (case priority_keys L st us of
        Inl e \<Rightarrow> Inl e
      | Inr ks \<Rightarrow> Inr (map fst (filter snd (zip us ks))
                       @ map fst (filter (\<lambda>p. \<not> snd p) (zip us ks))))"

fun add_new_urls :: "string set \<Rightarrow> string list \<Rightarrow> string list \<Rightarrow> string list" where
  "add_new_urls V urls_to_visit [] = urls_to_visit"
| "add_new_urls V urls_to_visit (new_url # new_urls) =
     (if new_url \<notin> V \<and> new_url \<notin> set urls_to_visit
      then add_new_urls V (urls_to_visit @ [new_url]) new_urls
      else add_new_urls V urls_to_visit new_urls)"

text \<open>The \<open>while urls_to_visit\<close> loop. It need not end on a site with no end of pages, so
  it takes fuel, one unit for each turn; \<open>None\<close> is the loop still running when the fuel
  is gone. An exception leaves the loop and \<open>crawl\<close> returns what it has.\<close>

fun crawl_loop ::
  "nat \<Rightarrow> pylib \<Rightarrow> scraper \<Rightarrow> web \<Rightarrow> crawl_state \<Rightarrow> string list \<Rightarrow> crawl_state option" where
  "crawl_loop fuel L S W st [] = Some st"
| "crawl_loop 0 L S W st (u # us) = None"
| "crawl_loop (Suc fuel) L S W st (u # us) =
     (case sort_by_priority L st (u # us) of
        Inl e \<Rightarrow> Some st
      | Inr ordered \<Rightarrow>
          (case ordered of
             [] \<Rightarrow> Some st
           | url # rest \<Rightarrow>
               if url \<in> visited_urls st then crawl_loop fuel L S W st rest
               else
                 (case process_url L S W st url of
                    (st1, Inl e) \<Rightarrow> Some st1
                  | (st1, Inr new_urls) \<Rightarrow>
                      crawl_loop fuel L S W st1
                        (add_new_urls (visited_urls st1) rest new_urls))))"

text \<open>\<open>WebsiteScraper.crawl\<close>: the final state, whose \<open>markdown_content\<close> is the
  value returned. Every exception ends the crawl with the content gathered so far.\<close>

definition crawl :: "nat \<Rightarrow> pylib \<Rightarrow> scraper \<Rightarrow> web \<Rightarrow> crawl_state option" where
  "crawl fuel L S W =
     (let st0 = init_state\<lparr>requested := [base_url S]\<rparr> in
      case W 0 (base_url S) of
        RequestException \<Rightarrow> Some st0
      | Response status pg \<Rightarrow>
          (case (if status = 200 then seed L S st0 pg else (st0, Inr [])) of
             (st1, Inl e) \<Rightarrow> Some st1
           | (st1, Inr priority_urls) \<Rightarrow>
               (case process_url L S W st1 (base_url S) of
                  (st2, Inl e) \<Rightarrow> Some st2
                | (st2, Inr new_urls) \<Rightarrow>
                    (case priority_loop L S W st2 [base_url S] priority_urls of
                       ((st3, urls_to_visit), Some e) \<Rightarrow> Some st3
                     | ((st3, urls_to_visit), None) \<Rightarrow>
                         crawl_loop fuel L S W st3 urls_to_visit))))"

section \<open>WebsiteScraper: sequences of offers and invariants\<close>

text \<open>A sequence of calls of \<open>_process_url\<close>, one for each URL offered, in order.\<close>

definition offer_all :: "pylib \<Rightarrow> scraper \<Rightarrow> web \<Rightarrow> crawl_state \<Rightarrow> string list \<Rightarrow> crawl_state" where
  "offer_all L S W st urls = fold (\<lambda>url s. fst (process_url L S W s url)) urls st"

text \<open>No two requests of \<open>_process_url\<close> were for URLs with the same normal form, and
  every requested URL has its normal form in \<open>visited_urls\<close>.\<close>

definition fetched_once :: "pylib \<Rightarrow> crawl_state \<Rightarrow> bool" where
  "fetched_once L st =
     (distinct (map (normalize_url L) (fetched st))
      \<and> (\<forall>u \<in> set (fetched st). \<exists>n. normalize_url L u = Inr n \<and> n \<in> visited_urls st))"



section \<open>ImageDownloader: qualification and download\<close>

text \<open>
  What an image request can give. \<open>ConnectionError\<close> stands for every
  \<open>requests.exceptions.RequestException\<close> raised by the request itself. An answer has a
  status code, the two headers the code reads and the body. \<open>Content-Length\<close> may be
  absent, a number, or text that \<open>int\<close> rejects.
\<close>

datatype http_method = HEAD | GET

datatype clen = NoHeader | Len int | BadLen

record http_response =
  status_code :: nat
  header_content_type :: "string option"
  header_content_length :: clen
  body :: "nat list"

datatype net_result = ConnectionError | Answer http_response

text \<open>
  The world of the downloader: the network (by number of requests made so far, method
  and URL), the pixel size that \<open>Image.open\<close> reads from a body (\<open>None\<close> when it
  raises), \<open>hashlib.md5(...).hexdigest()\<close>, \<open>str(hash(url) % 10000)\<close>, which
  differs from one process to the next, and the file system: \<open>file_write_ok name\<close> tells
  whether \<open>open\<close> and \<open>write\<close> succeed for the file \<open>name\<close> in \<open>image_dir\<close> (a
  name too long for the system, for one, is refused with \<open>OSError\<close>).
\<close>

record img_env =
  net :: "nat \<Rightarrow> http_method \<Rightarrow> string \<Rightarrow> net_result"
  image_size :: "nat list \<Rightarrow> (nat \<times> nat) option"
  md5_hexdigest :: "nat list \<Rightarrow> string"
  hash_mod_10000 :: "string \<Rightarrow> string"
  file_write_ok :: "string \<Rightarrow> bool"
  lib :: pylib

text \<open>
  The mutable fields of the downloader. \<open>visited\<close> and \<open>image_urls\<close> are Python sets,
  kept as lists without repetition, in insertion order. \<open>files\<close> lists every file write
  (name inside \<open>image_dir\<close>, bytes), \<open>sleeps\<close> every \<open>time.sleep\<close> of the retry loop,
  \<open>img_requests\<close> counts the requests made.
\<close>

record img_state =
  visited :: "string list"
  image_urls :: "string list"
  downloaded_count :: nat
  files :: "(string \<times> nat list) list"
  sleeps :: "nat list"
  img_requests :: nat

definition set_add :: "string list \<Rightarrow> string \<Rightarrow> string list" where
  "set_add xs x = (if x \<in> set xs then xs else xs @ [x])"

definition content_type_of :: "http_response \<Rightarrow> string" where
  "content_type_of r = (case header_content_type r of None \<Rightarrow> [] | Some t \<Rightarrow> t)"

definition basename :: "string \<Rightarrow> string" where
  "basename p = rev (takeWhile (\<lambda>c. c \<noteq> CHR ''/'') (rev p))"

text \<open>\<open>response.raise_for_status()\<close> raises for the codes 400 to 599.\<close>

definition raise_for_status :: "http_response \<Rightarrow> bool" where
  "raise_for_status r = (400 \<le> status_code r \<and> status_code r < 600)"

text \<open>
  \<open>get_image_info\<close>: the 5-tuple it returns, and the state (only the request counter
  moves). Every exception inside gives \<open>(False, "", 0, 0, 0)\<close>.
\<close>

definition get_image_info ::
  "img_env \<Rightarrow> downloader \<Rightarrow> img_state \<Rightarrow> string
     \<Rightarrow> img_state \<times> (bool \<times> string \<times> nat \<times> nat \<times> int)" where
  "get_image_info E D st img_url =
     (let st1 = st\<lparr>img_requests := Suc (img_requests st)\<rparr> in
      case net E (img_requests st) HEAD img_url of
        ConnectionError \<Rightarrow> (st1, (False, [], 0, 0, 0))
      | Answer head_response \<Rightarrow>
          (let content_type = content_type_of head_response in
           if \<not> prefix ''image/'' content_type then (st1, (False, content_type, 0, 0, 0))
           else
             (case (case header_content_length head_response of
                      NoHeader \<Rightarrow> Some 0 | Len n \<Rightarrow> Some n | BadLen \<Rightarrow> None) of
                None \<Rightarrow> (st1, (False, [], 0, 0, 0))
              | Some content_length \<Rightarrow>
                  if content_length > 0 \<and> content_length < min_size_kb D * 1024
                  then (st1, (False, content_type, 0, 0, content_length))
                  else
                    (let st2 = st1\<lparr>img_requests := Suc (img_requests st1)\<rparr> in
                     case net E (img_requests st1) GET img_url of
                       ConnectionError \<Rightarrow> (st2, (False, [], 0, 0, 0))
                     | Answer response \<Rightarrow>
                         (let size_bytes = int (length (body response)) in
                          if size_bytes < min_size_kb D * 1024
                          then (st2, (False, content_type, 0, 0, size_bytes))
                          else
                            (case image_size E (body response) of
                               None \<Rightarrow> (st2, (False, [], 0, 0, 0))
                             | Some (width, height) \<Rightarrow>
                                 if int width < min_width D \<or> int height < min_height D
                                 then (st2, (False, content_type, width, height, size_bytes))
                                 else (st2, (True, content_type, width, height,
                                             size_bytes))))))))"

text \<open>
  One pass of the retry loop of \<open>download_image\<close>. \<open>urljoin\<close> is outside the model:
  the URL is taken as absolute already. The result is \<open>Inr\<close> the value returned, or
  \<open>Inl ()\<close> when the download request raised a \<open>RequestException\<close>.
\<close>

definition download_attempt ::
  "img_env \<Rightarrow> downloader \<Rightarrow> img_state \<Rightarrow> string \<Rightarrow> img_state \<times> (unit + bool)" where
  "download_attempt E D st img_url =
     (case get_image_info E D st img_url of
        (st1, (is_valid, content_type, width, height, size_bytes)) \<Rightarrow>
          if \<not> is_valid then (st1, Inr False)
          else
            (let st2 = st1\<lparr>img_requests := Suc (img_requests st1)\<rparr> in
             case net E (img_requests st1) GET img_url of
               ConnectionError \<Rightarrow> (st2, Inl ())
             | Answer response \<Rightarrow>
                 (let img_data = body response;
                      img_hash = md5_hexdigest E img_data in
                  if img_hash \<in> set (image_urls st2) then (st2, Inr False)
                  else
                    (case urlparse (lib E) img_url of
                       Inl e \<Rightarrow> (st2\<lparr>image_urls := set_add (image_urls st2) img_hash\<rparr>,
                                 Inr False)
                     | Inr parsed \<Rightarrow>
                         (let img_filename =
                                (if basename (path parsed) = []
                                    \<or> CHR ''.'' \<notin> set (basename (path parsed))
                                 then img_hash @ ''.''
                                      @ last (split_on (CHR ''/'') content_type)
                                 else basename (path parsed)) in
                          if \<not> file_write_ok E img_filename
                          then (st2\<lparr>image_urls := set_add (image_urls st2) img_hash\<rparr>,
                                Inr False)
                          else
                            (st2\<lparr>image_urls := set_add (image_urls st2) img_hash,
                                 files := files st2 @ [(img_filename, img_data)],
                                 downloaded_count := Suc (downloaded_count st2)\<rparr>,
                             Inr True))))))"

text \<open>
  \<open>download_image(img_url, max_retries)\<close>: the loop \<open>for attempt in
  range(max_retries)\<close>, from \<open>attempt\<close> on. \<open>None\<close> is the value when the loop runs
  out, which happens only for \<open>max_retries \<le> 0\<close>.
\<close>

function download_image_from ::
  "img_env \<Rightarrow> downloader \<Rightarrow> nat \<Rightarrow> nat \<Rightarrow> img_state \<Rightarrow> string
     \<Rightarrow> img_state \<times> bool option" where
  "download_image_from E D max_retries attempt st img_url =
     (if attempt < max_retries then
        (case download_attempt E D st img_url of
           (st1, Inr b) \<Rightarrow> (st1, Some b)
         | (st1, Inl u) \<Rightarrow>
             if attempt < max_retries - 1
             then download_image_from E D max_retries (Suc attempt)
                    (st1\<lparr>sleeps := sleeps st1 @ [2 ^ attempt]\<rparr>) img_url
             else (st1, Some False))
      else (st, None))"
  by pat_completeness auto
termination
  by (relation "measure (\<lambda>(E, D, max_retries, attempt, st, img_url). max_retries - attempt)")
     auto

definition download_image ::
  "img_env \<Rightarrow> downloader \<Rightarrow> nat \<Rightarrow> img_state \<Rightarrow> string \<Rightarrow> img_state \<times> bool option" where
  "download_image E D max_retries st img_url =
     download_image_from E D max_retries 0 st img_url"

text \<open>The file name that \<open>_download_image\<close> takes for a URL with the parsed form
  \<open>parsed\<close>.\<close>

definition crawl_filename :: "img_env \<Rightarrow> string \<Rightarrow> parse_result \<Rightarrow> string" where
  "crawl_filename E url parsed =
     (if basename (path parsed) = [] \<or> CHR ''.'' \<notin> set (basename (path parsed))
      then ''image_'' @ hash_mod_10000 E url @ ''.jpg''
      else basename (path parsed))"

text \<open>
  \<open>_download_image\<close>, the method the crawl uses. One request; every exception,
  that of a failing file write too, is logged and the image left out, not counted.
  \<open>file_size_kb\<close> is a float, \<open>len(content) / 1024\<close>.
\<close>

definition download_image_crawl ::
  "img_env \<Rightarrow> downloader \<Rightarrow> img_state \<Rightarrow> string \<Rightarrow> img_state" where
  "download_image_crawl E D st url =
     (let st1 = st\<lparr>img_requests := Suc (img_requests st)\<rparr> in
      case net E (img_requests st) GET url of
        ConnectionError \<Rightarrow> st1
      | Answer response \<Rightarrow>
          if raise_for_status response then st1
          else if \<not> prefix ''image/'' (content_type_of response) then st1
          else
            (let file_size_kb = real (length (body response)) / 1024 in
             if file_size_kb < real_of_int (min_size_kb D) then st1
             else
               (case image_size E (body response) of
                  None \<Rightarrow> st1
                | Some (width, height) \<Rightarrow>
                    if int width < min_width D \<or> int height < min_height D then st1
                    else
                      (case urlparse (lib E) url of
                         Inl e \<Rightarrow> st1
                       | Inr parsed \<Rightarrow>
                           (let filename = crawl_filename E url parsed in
                            if \<not> file_write_ok E filename then st1
                            else st1\<lparr>files := files st1 @ [(filename, body response)],
                                     downloaded_count := Suc (downloaded_count st1)\<rparr>)))))"

text \<open>
  \<open>_download_images\<close>: every URL of \<open>image_urls\<close> goes to \<open>_download_image\<close>, then
  the set is emptied. The five worker threads are taken one after the other, in the order
  of the list.
\<close>

definition download_images :: "img_env \<Rightarrow> downloader \<Rightarrow> img_state \<Rightarrow> img_state" where
  "download_images E D st =
     (fold (\<lambda>url s. download_image_crawl E D s url) (image_urls st) st)\<lparr>image_urls := []\<rparr>"

section \<open>ImageDownloader: the crawl\<close>

text \<open>
  A page as the downloader sees it. \<open>FetchFailed\<close>: the request raised, the status was an
  error, or the page could not be parsed. Otherwise \<open>found_images\<close> are the absolute URLs
  that the image and style loops of \<open>_process_url\<close> add to \<open>image_urls\<close>,
  \<open>images_raised\<close> tells whether those loops ended in an exception (then no link is
  followed), \<open>priority_links\<close> are the absolute URLs of the anchors that carry a
  priority keyword, in page order, and \<open>landing_links\<close> the same for the longer keyword
  list of \<open>_identify_priority_pages\<close>.
\<close>

record img_page =
  found_images :: "string list"
  images_raised :: bool
  priority_links :: "string list"
  landing_links :: "string list"

datatype page_result = FetchFailed | Parsed img_page

type_synonym page_web = "nat \<Rightarrow> string \<Rightarrow> page_result"

text \<open>
  \<open>_process_url\<close> calls itself for the links of the page, so the model takes fuel: one
  unit for each nested call, \<open>None\<close> when it is used up. \<open>follow_links\<close> is the loop
  over the links; an exception there ends the loop, caught by the handler of the call
  that runs it: the \<open>ValueError\<close> of \<open>urlparse\<close>, or that of
  \<open>time.sleep(self.delay)\<close> for a negative delay, before the first link is followed.
\<close>

fun img_process_url ::
  "nat \<Rightarrow> img_env \<Rightarrow> page_web \<Rightarrow> downloader \<Rightarrow> img_state \<Rightarrow> string \<Rightarrow> bool
     \<Rightarrow> img_state option"
and follow_links ::
  "nat \<Rightarrow> img_env \<Rightarrow> page_web \<Rightarrow> downloader \<Rightarrow> img_state \<Rightarrow> string list
     \<Rightarrow> img_state option"
where
  "img_process_url 0 E P D st url is_priority = None"
| "img_process_url (Suc fuel) E P D st url is_priority =
     (if int (length (visited st)) \<ge> max_pages D then Some st
      else if url \<in> set (visited st) then Some st
      else
        (let st1 = st\<lparr>visited := set_add (visited st) url,
                       img_requests := Suc (img_requests st)\<rparr> in
         case P (img_requests st) url of
           FetchFailed \<Rightarrow> Some (download_images E D st1)
         | Parsed pg \<Rightarrow>
             (let st2 = st1\<lparr>image_urls := fold (\<lambda>u xs. set_add xs u) (found_images pg)
                                               (image_urls st1)\<rparr> in
              if images_raised pg \<or> \<not> is_priority then Some (download_images E D st2)
              else (case follow_links fuel E P D st2 (priority_links pg) of
                      None \<Rightarrow> None
                    | Some st3 \<Rightarrow> Some (download_images E D st3)))))"
| "follow_links fuel E P D st [] = Some st"
| "follow_links fuel E P D st (absolute_url # links) =
     (case urlparse (lib E) absolute_url of
        Inl e \<Rightarrow> Some st
      | Inr parsed \<Rightarrow>
          if netloc parsed = domain D \<and> absolute_url \<notin> set (visited st)
          then (if img_delay D < 0 then Some st
                else (case img_process_url fuel E P D st absolute_url True of
                        None \<Rightarrow> None
                      | Some st1 \<Rightarrow> follow_links fuel E P D st1 links))
          else follow_links fuel E P D st links)"

text \<open>\<open>_identify_priority_pages\<close>: the links of the landing page that stay on the
  domain. An exception ends it with what it has.\<close>

fun same_domain_links :: "pylib \<Rightarrow> downloader \<Rightarrow> string list \<Rightarrow> string list" where
  "same_domain_links L D [] = []"
| "same_domain_links L D (absolute_url # links) =
     (case urlparse L absolute_url of
        Inl e \<Rightarrow> []
      | Inr parsed \<Rightarrow>
          if netloc parsed = domain D then absolute_url # same_domain_links L D links
          else same_domain_links L D links)"

definition identify_priority_pages ::
  "img_env \<Rightarrow> page_web \<Rightarrow> downloader \<Rightarrow> nat \<Rightarrow> string \<Rightarrow> string list" where
  "identify_priority_pages E P D n url =
     (case P n url of
        FetchFailed \<Rightarrow> []
      | Parsed pg \<Rightarrow> same_domain_links (lib E) D (landing_links pg))"

text \<open>The loop of \<open>crawl\<close> over \<open>priority_pages\<close>.\<close>

fun crawl_priority_pages ::
  "nat \<Rightarrow> img_env \<Rightarrow> page_web \<Rightarrow> downloader \<Rightarrow> img_state \<Rightarrow> string list
     \<Rightarrow> img_state option" where
  "crawl_priority_pages fuel E P D st [] = Some st"
| "crawl_priority_pages fuel E P D st (url # urls) =
     (if url \<notin> set (visited st) \<and> int (length (visited st)) < max_pages D
      then (case img_process_url fuel E P D st url True of
              None \<Rightarrow> None
            | Some st1 \<Rightarrow> crawl_priority_pages fuel E P D st1 urls)
      else crawl_priority_pages fuel E P D st urls)"

definition img_init_state :: img_state where
  "img_init_state = \<lparr>visited = [], image_urls = [], downloaded_count = 0, files = [],
                      sleeps = [], img_requests = 0\<rparr>"

text \<open>\<open>ImageDownloader.crawl\<close> on a fresh downloader: the final state, whose
  \<open>downloaded_count\<close> is the value returned.\<close>

definition img_crawl ::
  "nat \<Rightarrow> img_env \<Rightarrow> page_web \<Rightarrow> downloader \<Rightarrow> img_state option" where
  "img_crawl fuel E P D =
     (let priority_pages = identify_priority_pages E P D 0 (img_base_url D);
          st0 = img_init_state\<lparr>img_requests := 1\<rparr> in
      case img_process_url fuel E P D st0 (img_base_url D) True of
        None \<Rightarrow> None
      | Some st1 \<Rightarrow> crawl_priority_pages fuel E P D st1 priority_pages)"

text \<open>The page cap of the downloader: \<open>visited\<close> has no repetition and at most
  \<open>max_pages\<close> entries (none when \<open>max_pages\<close> is negative).\<close>

definition page_cap_ok :: "downloader \<Rightarrow> img_state \<Rightarrow> bool" where
  "page_cap_ok D st = (distinct (visited st) \<and> int (length (visited st)) \<le> max 0 (max_pages D))"


section \<open>A concrete library environment for the examples\<close>

text \<open>An environment for evaluating the crawler on concrete URLs: both library checks
  pass, and \<open>tldextract\<close> is a table for the hosts of the examples (site \<open>hotel.com\<close>).\<close>

definition demo_tld :: "string \<Rightarrow> string \<times> string \<times> string" where
  "demo_tld url =
     (case map_of
        [(''https://booking.hotel.com.partner.net/brochure.pdf'',
            (''booking.hotel.com'', ''partner'', ''net''))] url of
        Some r \<Rightarrow> r
      | None \<Rightarrow> (''www'', ''hotel'', ''com''))"

definition demo_lib :: pylib where
  "demo_lib = \<lparr>check_bracketed_host = (\<lambda>_. True), checknetloc = (\<lambda>_. True),
                tld_extract = demo_tld\<rparr>"

definition demo_scraper :: scraper where
  "demo_scraper = \<lparr>base_url = ''https://www.hotel.com'', root_domain = ''hotel.com'',
                    delay = 1, max_booking_urls = 1\<rparr>"

definition empty_page :: page where
  "empty_page = \<lparr>content = ''text'', language_links = [], menu_links = [],
                  booking_links = [], all_links = []\<rparr>"

definition demo_menu :: "string list" where
  "demo_menu = [''https://www.hotel.com/rooms'', ''https://www.hotel.com/suites'',
     ''https://www.hotel.com/dining'', ''https://www.hotel.com/spa'',
     ''https://www.hotel.com/gallery'', ''https://www.hotel.com/contact'',
     ''https://www.hotel.com/about'', ''https://www.hotel.com/offers'',
     ''https://www.hotel.com/location'', ''https://www.hotel.com/events'']"

definition demo_web :: web where
  "demo_web n url =
     (if url = ''https://www.hotel.com''
      then Response 200 \<lparr>content = ''home'', language_links = [], menu_links = demo_menu,
                          booking_links = [], all_links = demo_menu\<rparr>
      else Response 200 empty_page)"


section \<open>A concrete image server for the examples\<close>

text \<open>
  The example downloader asks for at least 3 by 2 pixels and 2 KB. On the example server
  the first two bytes of a body are its width and height. \<open>pool.jpg\<close> and
  \<open>pool-copy.jpg\<close> are the same bytes under two URLs, exactly at the three minimums;
  \<open>short.jpg\<close> is one byte under, \<open>narrow.jpg\<close> and \<open>low.jpg\<close> one pixel under;
  \<open>down.jpg\<close> never answers; \<open>flaky.jpg\<close> fails at every third request.
\<close>

definition demo_downloader :: downloader where
  "demo_downloader = \<lparr>img_base_url = ''https://www.hotel.com'', domain = ''www.hotel.com'',
                        min_width = 3, min_height = 2, min_size_kb = 2, img_delay = 1,
                        max_pages = 3\<rparr>"

definition demo_bytes :: "nat \<Rightarrow> nat \<Rightarrow> nat \<Rightarrow> nat list" where
  "demo_bytes w h n = w # h # replicate (n - 2) 0"

definition demo_image :: "nat list \<Rightarrow> net_result" where
  "demo_image bs = Answer \<lparr>status_code = 200, header_content_type = Some ''image/jpeg'',
                           header_content_length = NoHeader, body = bs\<rparr>"

definition demo_net :: "nat \<Rightarrow> http_method \<Rightarrow> string \<Rightarrow> net_result" where
  "demo_net n m url =
     (if url = ''https://www.hotel.com/img/a/pool.jpg'' then demo_image (demo_bytes 3 2 2048)
      else if url = ''https://www.hotel.com/img/b/pool-copy.jpg''
      then demo_image (demo_bytes 3 2 2048)
      else if url = ''https://www.hotel.com/img/short.jpg''
      then demo_image (demo_bytes 3 2 2047)
      else if url = ''https://www.hotel.com/img/narrow.jpg''
      then demo_image (demo_bytes 2 2 2048)
      else if url = ''https://www.hotel.com/img/low.jpg''
      then demo_image (demo_bytes 3 1 2048)
      else if url = ''https://www.hotel.com/img/flaky.jpg'' \<and> n mod 3 \<noteq> 2
      then demo_image (demo_bytes 3 2 2048)
      else ConnectionError)"

definition demo_image_size :: "nat list \<Rightarrow> (nat \<times> nat) option" where
  "demo_image_size bs = (case bs of w # h # rest \<Rightarrow> Some (w, h) | _ \<Rightarrow> None)"

definition demo_env :: img_env where
  "demo_env = \<lparr>net = demo_net, image_size = demo_image_size,
                md5_hexdigest = (\<lambda>bs. if bs = demo_bytes 3 2 2048 then ''9f2c'' else ''0000''),
                hash_mod_10000 = (\<lambda>url. ''4711''), file_write_ok = (\<lambda>name. True),
                lib = demo_lib\<rparr>"

text \<open>The pages of the example site for the downloader: the landing page links to the ten
  pages of the menu, which link nowhere; no page shows an image.\<close>

definition demo_pages :: page_web where
  "demo_pages n url =
     (if url = ''https://www.hotel.com''
      then Parsed \<lparr>found_images = [], images_raised = False, priority_links = demo_menu,
                    landing_links = demo_menu\<rparr>
      else Parsed \<lparr>found_images = [], images_raised = False, priority_links = [],
                    landing_links = []\<rparr>)"


section \<open>Facts about urlparse and normalize_url\<close>

lemma hash_not_c0: "\<not> c0_control_or_space (CHR ''#'')" "\<not> unsafe_byte (CHR ''#'')"
  "\<not> c0_control_or_space (CHR ''/'')" "\<not> unsafe_byte (CHR ''/'')"
  by (simp_all add: c0_control_or_space_def unsafe_byte_def)

lemma clean_url_hash:
  "clean_url (u @ CHR ''#'' # f) = clean_url u @ CHR ''#'' # filter (\<lambda>c. \<not> unsafe_byte c) f"
  by (simp add: clean_url_def dropWhile_append3 hash_not_c0)

lemma clean_url_slash: "clean_url (u @ ''/'') = clean_url u @ ''/''"
  by (simp add: clean_url_def dropWhile_append3 hash_not_c0)

lemma set_clean_url: "set (clean_url u) \<subseteq> set u"
  unfolding clean_url_def using set_dropWhileD by fastforce

lemma hash_not_scheme: "CHR ''#'' \<notin> set scheme_chars" "CHR ''#'' \<notin> set ascii_letters"
  by (simp_all add: scheme_chars_def ascii_letters_def)

lemma length_takeWhile_mem: "c \<in> set v \<Longrightarrow> length (takeWhile (\<lambda>x. x \<noteq> c) v) < length v"
  by (induction v) auto

lemma split_scheme_none:
  "CHR '':'' \<notin> set url \<or> hd url \<notin> set ascii_letters
   \<or> \<not> (\<forall>c\<in>set (takeWhile (\<lambda>c. c \<noteq> CHR '':'') url). c \<in> set scheme_chars)
   \<Longrightarrow> split_scheme url = ([], url)"
  by (auto simp: split_scheme_def Let_def)

lemma split_scheme_hash:
  assumes "CHR ''#'' \<notin> set v"
  shows "split_scheme (v @ CHR ''#'' # g) = (fst (split_scheme v), snd (split_scheme v) @ CHR ''#'' # g)"
proof (cases "CHR '':'' \<in> set v")
  case True
  then have tw: "takeWhile (\<lambda>c. c \<noteq> CHR '':'') (v @ CHR ''#'' # g) = takeWhile (\<lambda>c. c \<noteq> CHR '':'') v"
    by (auto simp: takeWhile_append)
  from True have ne: "v \<noteq> []" by auto
  have len: "Suc (length (takeWhile (\<lambda>c. c \<noteq> CHR '':'') v)) \<le> length v"
    using length_takeWhile_mem[OF True] by simp
  show ?thesis using True ne len by (simp add: split_scheme_def tw Let_def)
next
  case False
  have "split_scheme (v @ CHR ''#'' # g) = ([], v @ CHR ''#'' # g)"
  proof (cases v)
    case Nil
    then show ?thesis by (intro split_scheme_none) (simp add: hash_not_scheme)
  next
    case (Cons a list)
    have "CHR ''#'' \<in> set (takeWhile (\<lambda>c. c \<noteq> CHR '':'') (v @ CHR ''#'' # g))"
      using False by (auto simp: takeWhile_append)
    then show ?thesis using hash_not_scheme by (intro split_scheme_none) blast
  qed
  moreover have "split_scheme v = ([], v)"
    using False by (intro split_scheme_none) simp
  ultimately show ?thesis by simp
qed

lemma take2_slashes: "take 2 r = ''//'' \<longleftrightarrow> (\<exists>r'. r = CHR ''/'' # CHR ''/'' # r')"
proof (cases r)
  case Nil then show ?thesis by simp
next
  case (Cons a r1)
  then show ?thesis by (cases r1) auto
qed

lemma takeWhile_stop: "\<not> P y \<Longrightarrow> takeWhile P (xs @ y # ys) = takeWhile P xs"
  by (induction xs) simp_all

lemma splitnetloc2_slashes:
  "splitnetloc2 (CHR ''/'' # CHR ''/'' # d) =
     (takeWhile (\<lambda>c. \<not> netloc_delim c) d, dropWhile (\<lambda>c. \<not> netloc_delim c) d)"
  by (simp add: splitnetloc2_def)

lemma split_netloc_other:
  "take 2 r \<noteq> ''//'' \<Longrightarrow> split_netloc L r = Inr ([], r)"
  by (simp only: split_netloc_def if_False)

lemma split_netloc_hash:
  assumes "CHR ''#'' \<notin> set r"
  shows "split_netloc L (r @ CHR ''#'' # g) =
         (case split_netloc L r of Inl e \<Rightarrow> Inl e | Inr (nl, rest) \<Rightarrow> Inr (nl, rest @ CHR ''#'' # g))"
proof (cases "take 2 r = ''//''")
  case True
  then obtain d where r: "r = CHR ''/'' # CHR ''/'' # d" using take2_slashes by blast
  have tw: "takeWhile (\<lambda>c. \<not> netloc_delim c) (d @ CHR ''#'' # g) = takeWhile (\<lambda>c. \<not> netloc_delim c) d"
    by (rule takeWhile_stop) (simp add: netloc_delim_def)
  have dw: "dropWhile (\<lambda>c. \<not> netloc_delim c) (d @ CHR ''#'' # g) = dropWhile (\<lambda>c. \<not> netloc_delim c) d @ CHR ''#'' # g"
    by (rule dropWhile_append3) (simp add: netloc_delim_def)
  have s2: "splitnetloc2 (r @ CHR ''#'' # g) = (fst (splitnetloc2 r), snd (splitnetloc2 r) @ CHR ''#'' # g)"
    by (simp add: r splitnetloc2_slashes tw dw)
  have t2: "take 2 (r @ CHR ''#'' # g) = ''//''" by (simp add: r)
  have lhs: "split_netloc L (r @ CHR ''#'' # g) =
      (if bracket_checks L (fst (splitnetloc2 r))
       then Inr (fst (splitnetloc2 r), snd (splitnetloc2 r) @ CHR ''#'' # g) else Inl ValueError)"
    unfolding split_netloc_def s2 by (simp only: t2 if_True fst_conv simp_thms)
  have rhs: "split_netloc L r =
      (if bracket_checks L (fst (splitnetloc2 r)) then Inr (splitnetloc2 r) else Inl ValueError)"
    unfolding split_netloc_def by (simp only: True if_True simp_thms)
  show ?thesis unfolding lhs rhs by (cases "splitnetloc2 r") simp
next
  case False
  have "take 2 (r @ CHR ''#'' # g) \<noteq> ''//''"
  proof
    assume "take 2 (r @ CHR ''#'' # g) = ''//''"
    then obtain r' where e: "r @ CHR ''#'' # g = CHR ''/'' # CHR ''/'' # r'" using take2_slashes by blast
    show False
    proof (cases r)
      case Nil with e show ?thesis by simp
    next
      case (Cons a r1)
      show ?thesis
      proof (cases r1)
        case Nil with Cons e show ?thesis by simp
      next
        case (Cons b r2)
        with \<open>r = a # r1\<close> e have "take 2 r = ''//''" by simp
        with False show ?thesis by simp
      qed
    qed
  qed
  then show ?thesis using False by (simp add: split_netloc_other)
qed

lemma split_netloc_rest_subset:
  "split_netloc L r = Inr (nl, rest) \<Longrightarrow> set rest \<subseteq> set r"
proof (cases "take 2 r = ''//''")
  case True
  assume a: "split_netloc L r = Inr (nl, rest)"
  from True obtain d where r: "r = CHR ''/'' # CHR ''/'' # d" using take2_slashes by blast
  from a True have "rest = snd (splitnetloc2 r)"
    by (auto simp: split_netloc_def split: if_splits)
  then have "rest = dropWhile (\<lambda>c. \<not> netloc_delim c) d" by (simp add: r splitnetloc2_slashes)
  then show ?thesis using set_dropWhileD r by fastforce
next
  case False
  assume "split_netloc L r = Inr (nl, rest)"
  with False show ?thesis by (simp add: split_netloc_other)
qed

lemma split_scheme_rest_subset: "set (snd (split_scheme v)) \<subseteq> set v"
  by (simp add: split_scheme_def Let_def set_drop_subset)

lemma split1_stop:
  "c \<notin> set r \<Longrightarrow> split1 c (r @ c # g) = (r, g)"
  by (induction r) (auto simp: split1_def)

lemma split_fragment_hash:
  "CHR ''#'' \<notin> set r \<Longrightarrow> split_fragment (r @ CHR ''#'' # g) = (r, g)"
  "CHR ''#'' \<notin> set r \<Longrightarrow> split_fragment r = (r, [])"
  by (simp_all add: split_fragment_def split1_stop)


lemma urlparse_alt:
  "urlparse L url0 =
     (case split_netloc L (snd (split_scheme (clean_url url0))) of
        Inl e \<Rightarrow> Inl e
      | Inr (nl, url2) \<Rightarrow>
          parse_tail L (fst (split_scheme (clean_url url0))) nl
            (fst (split_fragment url2)) (snd (split_fragment url2)))"
  by (simp add: urlparse_def parse_tail_def split: prod.splits sum.splits)

lemma parse_tail_fragment:
  "parse_tail L sch nl url3 frag =
    (case parse_tail L sch nl url3 [] of Inl e \<Rightarrow> Inl e | Inr p \<Rightarrow> Inr (p\<lparr>fragment := frag\<rparr>))"
  by (simp add: parse_tail_def split: prod.splits)

lemma urlparse_hash:
  assumes "CHR ''#'' \<notin> set u"
  shows "urlparse L (u @ CHR ''#'' # f) =
     (case urlparse L u of Inl e \<Rightarrow> Inl e
      | Inr p \<Rightarrow> Inr (p\<lparr>fragment := filter (\<lambda>c. \<not> unsafe_byte c) f\<rparr>))"
proof -
  let ?g = "filter (\<lambda>c. \<not> unsafe_byte c) f"
  obtain s r where sr: "split_scheme (clean_url u) = (s, r)" by fastforce
  have cu: "CHR ''#'' \<notin> set (clean_url u)" using assms set_clean_url by blast
  then have r: "CHR ''#'' \<notin> set r" using split_scheme_rest_subset[of "clean_url u"] sr by auto
  have s1: "split_scheme (clean_url (u @ CHR ''#'' # f)) = (s, r @ CHR ''#'' # ?g)"
    by (simp add: clean_url_hash split_scheme_hash[OF cu] sr)
  show ?thesis
  proof (cases "split_netloc L r")
    case (Inl e)
    then show ?thesis by (simp add: urlparse_alt s1 sr split_netloc_hash[OF r])
  next
    case (Inr b)
    obtain nl rest where b: "b = (nl, rest)" by fastforce
    have rest: "CHR ''#'' \<notin> set rest" using split_netloc_rest_subset Inr b r by blast
    show ?thesis
      unfolding urlparse_alt s1 sr snd_conv fst_conv split_netloc_hash[OF r] Inr b
      by (simp add: split_fragment_hash[OF rest] parse_tail_fragment[of _ _ _ _ ?g])
  qed
qed

lemma booking_parsed_fragment: "booking_parsed (p\<lparr>fragment := g\<rparr>) = booking_parsed p"
  by (simp add: booking_parsed_def)

lemma normalize_parsed_fragment: "normalize_parsed (p\<lparr>fragment := g\<rparr>) b = normalize_parsed p b"
  by (simp add: normalize_parsed_def Let_def)

lemma normalize_url_hash:
  assumes "CHR ''#'' \<notin> set u"
  shows "normalize_url L (u @ CHR ''#'' # f) = normalize_url L u"
  by (cases "urlparse L u")
     (simp_all add: normalize_url_def is_booking_url_def urlparse_hash[OF assms]
        booking_parsed_fragment normalize_parsed_fragment)

lemma rstrip_snoc: "rstrip c (x @ [c]) = rstrip c x"
  by (simp add: rstrip_def)

lemma split_scheme_slash:
  "split_scheme (w @ ''/'') = (fst (split_scheme w), snd (split_scheme w) @ ''/'')"
proof (cases "CHR '':'' \<in> set w")
  case True
  have tw: "takeWhile (\<lambda>c. c \<noteq> CHR '':'') (w @ ''/'') = takeWhile (\<lambda>c. c \<noteq> CHR '':'') w"
    using True by (induction w) auto
  from True have ne: "w \<noteq> []" by auto
  have len: "Suc (length (takeWhile (\<lambda>c. c \<noteq> CHR '':'') w)) \<le> length w"
    using length_takeWhile_mem[OF True] by simp
  show ?thesis using True ne len by (simp add: split_scheme_def tw Let_def)
next
  case False
  have "split_scheme (w @ ''/'') = ([], w @ ''/'')"
    using False by (intro split_scheme_none) simp
  moreover have "split_scheme w = ([], w)"
    using False by (intro split_scheme_none) simp
  ultimately show ?thesis by simp
qed

lemma bracket_checks_Nil: "bracket_checks L []"
  by (simp add: bracket_checks_def)

lemma split_netloc_slash:
  assumes "CHR ''?'' \<notin> set r" "CHR ''#'' \<notin> set r"
  shows "split_netloc L (r @ ''/'') =
     (if r = ''/'' then Inr ([], [])
      else case split_netloc L r of Inl e \<Rightarrow> Inl e | Inr (nl, rest) \<Rightarrow> Inr (nl, rest @ ''/''))"
proof (cases "take 2 r = ''//''")
  case True
  then obtain d where r: "r = CHR ''/'' # CHR ''/'' # d" using take2_slashes by blast
  have tw: "takeWhile (\<lambda>c. \<not> netloc_delim c) (d @ CHR ''/'' # []) = takeWhile (\<lambda>c. \<not> netloc_delim c) d"
    by (rule takeWhile_stop) (simp add: netloc_delim_def)
  have dw: "dropWhile (\<lambda>c. \<not> netloc_delim c) (d @ CHR ''/'' # []) = dropWhile (\<lambda>c. \<not> netloc_delim c) d @ CHR ''/'' # []"
    by (rule dropWhile_append3) (simp add: netloc_delim_def)
  have s2: "splitnetloc2 (r @ ''/'') = (fst (splitnetloc2 r), snd (splitnetloc2 r) @ ''/'')"
    using tw dw by (simp add: r splitnetloc2_slashes)
  have t2: "take 2 (r @ ''/'') = ''//''" by (simp add: r)
  have lhs: "split_netloc L (r @ ''/'') =
      (if bracket_checks L (fst (splitnetloc2 r))
       then Inr (fst (splitnetloc2 r), snd (splitnetloc2 r) @ ''/'') else Inl ValueError)"
    unfolding split_netloc_def s2 by (simp only: t2 if_True fst_conv simp_thms)
  have rhs: "split_netloc L r =
      (if bracket_checks L (fst (splitnetloc2 r)) then Inr (splitnetloc2 r) else Inl ValueError)"
    unfolding split_netloc_def by (simp only: True if_True simp_thms)
  have ne: "r \<noteq> ''/''" using r by simp
  show ?thesis unfolding lhs rhs using ne by (cases "splitnetloc2 r") simp
next
  case False
  show ?thesis
  proof (cases "r = ''/''")
    case True
    have "split_netloc L ''//'' = Inr ([], [])"
      by (simp add: split_netloc_def splitnetloc2_def bracket_checks_Nil)
    then show ?thesis using True by simp
  next
    case ne: False
    have "take 2 (r @ ''/'') \<noteq> ''//''"
    proof
      assume "take 2 (r @ ''/'') = ''//''"
      then obtain r' where e: "r @ ''/'' = CHR ''/'' # CHR ''/'' # r'" using take2_slashes by blast
      show False
      proof (cases r)
        case Nil with e show ?thesis by simp
      next
        case (Cons a r1)
        show ?thesis
        proof (cases r1)
          case Nil with Cons e ne show ?thesis by simp
        next
          case (Cons b r2)
          with \<open>r = a # r1\<close> e have "take 2 r = ''//''" by simp
          with False show ?thesis by simp
        qed
      qed
    qed
    then show ?thesis using False ne by (simp add: split_netloc_other)
  qed
qed

lemma parse_tail_plain:
  assumes "CHR ''?'' \<notin> set url3" "CHR '';'' \<notin> set url3"
  shows "parse_tail L sch nl url3 [] =
     (if nl \<noteq> [] \<and> \<not> isascii nl \<and> \<not> checknetloc L nl then Inl ValueError
      else Inr \<lparr>scheme = sch, netloc = nl, path = url3, params = [], query = [], fragment = []\<rparr>)"
  using assms by (simp add: parse_tail_def split_query_def)

lemma normalize_url_plain:
  assumes "CHR ''?'' \<notin> set u" "CHR '';'' \<notin> set u" "CHR ''#'' \<notin> set u"
  shows "normalize_url L u =
     (case split_netloc L (snd (split_scheme (clean_url u))) of
        Inl e \<Rightarrow> Inl e
      | Inr (nl, rest) \<Rightarrow>
          if nl \<noteq> [] \<and> \<not> isascii nl \<and> \<not> checknetloc L nl then Inl ValueError
          else Inr (rstrip (CHR ''/'') (fst (split_scheme (clean_url u)) @ ''://'' @ nl @ rest)))"
proof (cases "split_netloc L (snd (split_scheme (clean_url u)))")
  case (Inl e)
  then show ?thesis by (simp add: normalize_url_def urlparse_alt)
next
  case (Inr b)
  obtain nl rest where b: "b = (nl, rest)" by fastforce
  have sub: "set rest \<subseteq> set u"
    using split_netloc_rest_subset[of L _ nl rest] Inr b split_scheme_rest_subset set_clean_url
    by blast
  then have rest: "CHR ''?'' \<notin> set rest" "CHR '';'' \<notin> set rest" "CHR ''#'' \<notin> set rest"
    using assms by auto
  show ?thesis
    by (simp add: normalize_url_def urlparse_alt Inr b split_fragment_hash(2)[OF rest(3)]
         parse_tail_plain[OF rest(1,2)] normalize_parsed_def)
qed

lemma normalize_url_slash_plain:
  assumes "CHR ''?'' \<notin> set u" "CHR '';'' \<notin> set u" "CHR ''#'' \<notin> set u"
  shows "normalize_url L (u @ ''/'') = normalize_url L u"
proof -
  let ?s = "fst (split_scheme (clean_url u))"
  let ?r = "snd (split_scheme (clean_url u))"
  have u': "CHR ''?'' \<notin> set (u @ ''/'')" "CHR '';'' \<notin> set (u @ ''/'')" "CHR ''#'' \<notin> set (u @ ''/'')"
    using assms by simp_all
  have r: "CHR ''?'' \<notin> set ?r" "CHR ''#'' \<notin> set ?r"
    using assms split_scheme_rest_subset[of "clean_url u"] set_clean_url[of u] by blast+
  have sp: "split_scheme (clean_url (u @ ''/'')) = (?s, ?r @ ''/'')"
    by (simp add: clean_url_slash split_scheme_slash)
  note nl = split_netloc_slash[OF r, of L]
  show ?thesis
  proof (cases "?r = ''/''")
    case True
    have "split_netloc L ''/'' = Inr ([], ''/'')" by (simp add: split_netloc_other)
    then show ?thesis
      unfolding normalize_url_plain[OF u'] normalize_url_plain[OF assms] sp fst_conv snd_conv nl
      using True by (simp add: rstrip_def)
  next
    case False
    show ?thesis
    proof (cases "split_netloc L ?r")
      case (Inl e)
      then show ?thesis
        unfolding normalize_url_plain[OF u'] normalize_url_plain[OF assms] sp fst_conv snd_conv nl
        using False by simp
    next
      case (Inr b)
      obtain n rest where b: "b = (n, rest)" by fastforce
      show ?thesis
        unfolding normalize_url_plain[OF u'] normalize_url_plain[OF assms] sp fst_conv snd_conv nl
        using False Inr b by (simp add: rstrip_def)
    qed
  qed
qed

lemma normalize_url_slash:
  assumes "CHR ''?'' \<notin> set u" "CHR '';'' \<notin> set u"
  shows "normalize_url L (u @ ''/'') = normalize_url L u"
proof (cases "CHR ''#'' \<in> set u")
  case True
  then obtain v f where u: "u = v @ CHR ''#'' # f" and v: "CHR ''#'' \<notin> set v"
    using split_list_first by fastforce
  have "normalize_url L (v @ CHR ''#'' # (f @ ''/'')) = normalize_url L v"
    by (rule normalize_url_hash[OF v])
  moreover have "normalize_url L (v @ CHR ''#'' # f) = normalize_url L v"
    by (rule normalize_url_hash[OF v])
  ultimately show ?thesis by (simp add: u)
next
  case False
  then show ?thesis using assms by (intro normalize_url_slash_plain)
qed


section \<open>Evaluating the URL functions on concrete input\<close>

lemmas url_eval =
  normalize_url_def urlparse_def clean_url_def split_scheme_def split_netloc_def
  splitnetloc2_def bracket_checks_def split_fragment_def split_query_def splitparams_def
  split1_def is_booking_url_def booking_parsed_def normalize_parsed_def rstrip_def
  lower_def lower_char_def c0_control_or_space_def unsafe_byte_def netloc_delim_def
  uses_params_def ascii_letters_def scheme_chars_def isascii_def
  potential_booking_domains_def booking_path_terms_def volatile_keys_def

lemma normalize_rooms_slash_query:
  "normalize_url L ''http://a.com/rooms/?page=2'' = Inr ''http://a.com/rooms/?page=2''"
  by (simp add: url_eval)

lemma normalize_rooms_query:
  "normalize_url L ''http://a.com/rooms?page=2'' = Inr ''http://a.com/rooms?page=2''"
  by (simp add: url_eval)

lemma normalize_params_slash:
  "normalize_url L ''http://a.com/x;p/'' = Inr ''http://a.com/x;p''"
  by (simp add: url_eval)

lemma normalize_params:
  "normalize_url L ''http://a.com/x;p'' = Inr ''http://a.com/x''"
  by (simp add: url_eval)

section \<open>C6: normalisation, fragments and trailing slashes\<close>

text \<open>
  C6, as the code has it. \<open>normalize_url\<close> drops the fragment of every URL: a URL and the
  same URL with any fragment added normalise to the same string (or raise alike). It
  strips trailing slashes from the string it has assembled, so a URL and the same URL
  with one slash added at its end normalise alike whenever the URL has no query (\<open>?\<close>)
  and no path parameters (\<open>;\<close>).
\<close>

theorem normalize_url_fragment_slash:
  "(CHR ''#'' \<notin> set u \<longrightarrow> normalize_url L (u @ CHR ''#'' # f) = normalize_url L u) \<and>
   (CHR ''?'' \<notin> set u \<and> CHR '';'' \<notin> set u \<longrightarrow>
      normalize_url L (u @ ''/'') = normalize_url L u)"
  using normalize_url_hash normalize_url_slash by blast

theorem normalize_url_fragment_slash_witness:
  "CHR ''#'' \<notin> set ''https://hotel.com/rooms''
   \<and> CHR ''?'' \<notin> set ''https://hotel.com/rooms''
   \<and> CHR '';'' \<notin> set ''https://hotel.com/rooms''
   \<and> normalize_url demo_lib ''https://hotel.com/rooms#top''
       = normalize_url demo_lib ''https://hotel.com/rooms''
   \<and> normalize_url demo_lib ''https://hotel.com/rooms/''
       = normalize_url demo_lib ''https://hotel.com/rooms''"
  using normalize_url_fragment_slash [of "''https://hotel.com/rooms''" demo_lib "''top''"]
  by simp

text \<open>
  C6 as stated fails: with a query present the slash that ends the path is kept, and a
  slash after path parameters changes what \<open>urlparse\<close> takes as the path.
\<close>

theorem normalize_url_slash_counterexample:
  "normalize_url demo_lib ''http://a.com/rooms/?page=2''
     \<noteq> normalize_url demo_lib ''http://a.com/rooms?page=2''
   \<and> normalize_url demo_lib (''http://a.com/x;p'' @ ''/'')
     \<noteq> normalize_url demo_lib ''http://a.com/x;p''"
  by (simp add: normalize_rooms_slash_query normalize_rooms_query
        normalize_params_slash normalize_params)

section \<open>C7: query parameters\<close>

lemma booking_query_params_kept:
  "booking_query_params m ps = booking_query_params m (filter kept_param ps)"
  by (induction ps arbitrary: m) (simp_all add: kept_param_def split: prod.splits)

lemma kept_params_Nil: "kept_params [] = []"
  by (simp add: kept_params_def kept_param_def)

lemma booking_query_params_Nil: "booking_query_params m [] = m" by simp

lemma normalize_parsed_booking:
  "normalize_parsed p True =
     rstrip (CHR ''/'')
       (let qp = booking_query_params [] (kept_params (query p)) in
        scheme p @ ''://'' @ netloc p @ path p @
          (if qp \<noteq> [] then ''?'' @ join ''&'' (map (\<lambda>(k, v). k @ ''='' @ v) qp) else []))"
proof (cases "query p = []")
  case True
  then show ?thesis by (simp add: normalize_parsed_def kept_params_Nil)
next
  case False
  have "booking_query_params [] (split_on (CHR ''&'') (query p))
        = booking_query_params [] (kept_params (query p))"
    unfolding kept_params_def by (rule booking_query_params_kept)
  then show ?thesis using False by (simp add: normalize_parsed_def Let_def)
qed

lemma normalize_parsed_no_query:
  "query p = [] \<Longrightarrow> normalize_parsed p b = normalize_parsed p True"
  by (simp add: normalize_parsed_def)

lemma normalize_url_parsed:
  "urlparse L u = Inr p \<Longrightarrow> normalize_url L u = Inr (normalize_parsed p (booking_parsed p))"
  by (simp add: normalize_url_def is_booking_url_def normalize_parsed_def)

lemma normalize_url_booking_volatile:
  assumes "urlparse L u1 = Inr p1" "urlparse L u2 = Inr p2"
    and "booking_parsed p1" "booking_parsed p2"
    and "scheme p1 = scheme p2" "netloc p1 = netloc p2" "path p1 = path p2"
    and "kept_params (query p1) = kept_params (query p2)"
  shows "normalize_url L u1 = normalize_url L u2"
  using assms by (simp add: normalize_url_parsed normalize_parsed_booking)

lemma normalize_url_not_booking:
  assumes "urlparse L u = Inr p" "\<not> booking_parsed p"
  shows "normalize_url L u =
      Inr (rstrip (CHR ''/'') (scheme p @ ''://'' @ netloc p @ path p @
             (if query p \<noteq> [] then ''?'' @ query p else [])))"
  using assms by (simp add: normalize_url_parsed normalize_parsed_def)

lemma rstrip_no_slash: "s \<noteq> [] \<Longrightarrow> last s \<noteq> c \<Longrightarrow> rstrip c (x @ s) = x @ s"
  by (cases s rule: rev_cases) (simp_all add: rstrip_def)

lemma normalize_url_query_verbatim:
  assumes "urlparse L u = Inr p" "\<not> booking_parsed p" "query p \<noteq> []" "last (query p) \<noteq> CHR ''/''"
  shows "normalize_url L u = Inr (scheme p @ ''://'' @ netloc p @ path p @ ''?'' @ query p)"
proof -
  have "rstrip (CHR ''/'') ((scheme p @ ''://'' @ netloc p @ path p @ ''?'') @ query p)
        = (scheme p @ ''://'' @ netloc p @ path p @ ''?'') @ query p"
    using assms(3,4) by (rule rstrip_no_slash)
  then show ?thesis using assms by (simp add: normalize_url_not_booking)
qed

lemma rooms_next_slash:
  "urlparse L ''https://hotel.com/rooms?next=/''
     = Inr \<lparr>scheme = ''https'', netloc = ''hotel.com'', path = ''/rooms'', params = [],
             query = ''next=/'', fragment = []\<rparr>"
  "is_booking_url L ''https://hotel.com/rooms?next=/'' = Inr False"
  "normalize_url L ''https://hotel.com/rooms?next=/'' = Inr ''https://hotel.com/rooms?next=''"
  by (simp_all add: url_eval)

text \<open>
  C7, as the code has it. Two booking URLs with the same scheme, host and path whose
  queries differ only in parameters that the code drops (\<open>lang\<close>, \<open>language\<close>,
  \<open>currency\<close>, \<open>nsid\<close>, \<open>sessionid\<close>) normalise to the same string. A URL that is not
  a booking URL and whose query is not empty and does not end in a slash keeps its query
  verbatim: the result is the scheme, \<open>://\<close>, the host, the path as \<open>urlparse\<close> gives
  it (without path parameters), \<open>?\<close> and the query.
\<close>

theorem normalize_url_query_params:
  "(urlparse L u1 = Inr p1 \<and> urlparse L u2 = Inr p2
      \<and> booking_parsed p1 \<and> booking_parsed p2
      \<and> scheme p1 = scheme p2 \<and> netloc p1 = netloc p2 \<and> path p1 = path p2
      \<and> kept_params (query p1) = kept_params (query p2)
    \<longrightarrow> normalize_url L u1 = normalize_url L u2)
   \<and> (urlparse L u = Inr p \<and> \<not> booking_parsed p \<and> query p \<noteq> []
        \<and> last (query p) \<noteq> CHR ''/''
    \<longrightarrow> normalize_url L u = Inr (scheme p @ ''://'' @ netloc p @ path p @ ''?'' @ query p))"
  using normalize_url_booking_volatile normalize_url_query_verbatim
  by blast

theorem normalize_url_query_params_witness:
  "urlparse demo_lib ''https://booking.hotel.com/search?room=2&lang=en&currency=EUR''
     = Inr \<lparr>scheme = ''https'', netloc = ''booking.hotel.com'', path = ''/search'',
             params = [], query = ''room=2&lang=en&currency=EUR'', fragment = []\<rparr>
   \<and> urlparse demo_lib ''https://booking.hotel.com/search?sessionid=77&room=2''
     = Inr \<lparr>scheme = ''https'', netloc = ''booking.hotel.com'', path = ''/search'',
             params = [], query = ''sessionid=77&room=2'', fragment = []\<rparr>
   \<and> kept_params ''room=2&lang=en&currency=EUR'' = kept_params ''sessionid=77&room=2''
   \<and> normalize_url demo_lib ''https://booking.hotel.com/search?room=2&lang=en&currency=EUR''
     = normalize_url demo_lib ''https://booking.hotel.com/search?sessionid=77&room=2''
   \<and> urlparse demo_lib ''https://hotel.com/rooms?lang=en&page=2#x''
     = Inr \<lparr>scheme = ''https'', netloc = ''hotel.com'', path = ''/rooms'',
             params = [], query = ''lang=en&page=2'', fragment = ''x''\<rparr>
   \<and> normalize_url demo_lib ''https://hotel.com/rooms?lang=en&page=2#x''
     = Inr ''https://hotel.com/rooms?lang=en&page=2''"
proof -
  let ?p1 = "\<lparr>scheme = ''https'', netloc = ''booking.hotel.com'', path = ''/search'',
             params = [], query = ''room=2&lang=en&currency=EUR'', fragment = []\<rparr>"
  let ?p2 = "\<lparr>scheme = ''https'', netloc = ''booking.hotel.com'', path = ''/search'',
             params = [], query = ''sessionid=77&room=2'', fragment = []\<rparr>"
  let ?p = "\<lparr>scheme = ''https'', netloc = ''hotel.com'', path = ''/rooms'',
             params = [], query = ''lang=en&page=2'', fragment = ''x''\<rparr>"
  have h1: "urlparse demo_lib ''https://booking.hotel.com/search?room=2&lang=en&currency=EUR''
     = Inr ?p1" by (simp add: url_eval)
  have h2: "urlparse demo_lib ''https://booking.hotel.com/search?sessionid=77&room=2''
     = Inr ?p2" by (simp add: url_eval)
  have h3: "urlparse demo_lib ''https://hotel.com/rooms?lang=en&page=2#x'' = Inr ?p"
    by (simp add: url_eval)
  have b1: "booking_parsed ?p1" by (simp add: url_eval)
  have b2: "booking_parsed ?p2" by (simp add: url_eval)
  have b3: "\<not> booking_parsed ?p" by (simp add: url_eval)
  have k: "kept_params ''room=2&lang=en&currency=EUR'' = kept_params ''sessionid=77&room=2''"
    by (simp add: kept_params_def kept_param_def url_eval)
  show ?thesis
    using normalize_url_query_params
      [where L = demo_lib
         and ?u1.0 = "''https://booking.hotel.com/search?room=2&lang=en&currency=EUR''"
         and ?p1.0 = ?p1
         and ?u2.0 = "''https://booking.hotel.com/search?sessionid=77&room=2''"
         and ?p2.0 = ?p2
         and u = "''https://hotel.com/rooms?lang=en&page=2#x''" and p = ?p]
      h1 h2 h3 b1 b2 b3 k
    by simp
qed

text \<open>
  C7 as stated fails for a query that ends in a slash: the URL below is not a booking URL,
  and \<open>rstrip('/')\<close>, run over the assembled string, takes the slash off its query.
\<close>

theorem normalize_url_query_slash_counterexample:
  "urlparse demo_lib ''https://hotel.com/rooms?next=/''
     = Inr \<lparr>scheme = ''https'', netloc = ''hotel.com'', path = ''/rooms'', params = [],
             query = ''next=/'', fragment = []\<rparr>
   \<and> is_booking_url demo_lib ''https://hotel.com/rooms?next=/'' = Inr False
   \<and> normalize_url demo_lib ''https://hotel.com/rooms?next=/''
       = Inr ''https://hotel.com/rooms?next=''"
  by (simp add: rooms_next_slash)

section \<open>C8: file extensions and scope\<close>

lemmas scope_eval =
  is_valid_url_def is_same_site_def file_extensions_def endswith_def demo_lib_def demo_tld_def
  demo_scraper_def

text \<open>On the scraper's own site, a path that ends in one of the listed extensions is never
  valid.\<close>

lemma is_valid_url_same_site_extension:
  assumes "urlparse L url = Inr parsed" "is_same_site L S url = Inr True"
    and "ext \<in> set file_extensions" "endswith (lower (path parsed)) ext"
  shows "is_valid_url L S url = Inr False"
  using assms by (auto simp: is_valid_url_def)

text \<open>
  C8 fails on the code for an external booking host. \<open>is_valid_url\<close> returns \<open>True\<close> for
  a URL on another root domain whose host holds a booking word and the site's root domain,
  before it looks at the extension: the brochure below is a PDF and is in scope.
\<close>

theorem is_valid_url_booking_pdf:
  "new_scraper demo_lib ''https://www.hotel.com'' 1 1 = Inr demo_scraper
   \<and> is_same_site demo_lib demo_scraper
         ''https://booking.hotel.com.partner.net/brochure.pdf'' = Inr False
   \<and> is_valid_url demo_lib demo_scraper
         ''https://booking.hotel.com.partner.net/brochure.pdf'' = Inr True"
  by (simp add: new_scraper_def scope_eval url_eval)

section \<open>C9: malformed URLs\<close>

text \<open>
  C9 fails on the code of \<open>WebsiteScraper.is_valid_url\<close>: on a netloc with an opening
  bracket and no closing one \<open>urlparse\<close> raises \<open>ValueError\<close>, and the method passes it on
  to its caller. \<open>ImageDownloader.is_valid_url\<close> catches it and answers \<open>False\<close>.
\<close>

theorem is_valid_url_raises:
  "is_valid_url L S ''http://['' = Inl ValueError
   \<and> img_is_valid_url L D ''http://['' = False"
  by (simp add: is_valid_url_def img_is_valid_url_def url_eval)

section \<open>Facts about \<open>_process_url\<close> and \<open>crawl\<close>\<close>

lemma booking_gate_other:
  "booking_gate L S st url = (st', r) \<Longrightarrow>
     visited_urls st' = visited_urls st \<and> fetched st' = fetched st
     \<and> requested st' = requested st \<and> markdown_content st' = markdown_content st
     \<and> main_page_links st' = main_page_links st"
  by (auto simp: booking_gate_def split: sum.splits if_splits)

lemma fetch_and_extract_fields:
  "fetch_and_extract L S W st url = (st', new) \<Longrightarrow>
     visited_urls st' = visited_urls st \<and> fetched st' = fetched st @ [url]
     \<and> booking_urls_crawled st' = booking_urls_crawled st
     \<and> booking_domains_seen st' = booking_domains_seen st"
  by (auto simp: fetch_and_extract_def Let_def split: response.splits if_splits sum.splits)

lemma process_url_cases:
  assumes "process_url L S W st url = (st', r)"
  shows "(visited_urls st' = visited_urls st \<and> fetched st' = fetched st)
       \<or> (\<exists>n. normalize_url L url = Inr n \<and> n \<notin> visited_urls st
             \<and> visited_urls st' = insert n (visited_urls st)
             \<and> (fetched st' = fetched st \<or> fetched st' = fetched st @ [url]))"
proof (cases "normalize_url L url")
  case (Inl e)
  then show ?thesis using assms by (simp add: process_url_def)
next
  case (Inr n)
  show ?thesis
  proof (cases "n \<in> visited_urls st")
    case True
    then show ?thesis using assms Inr by (simp add: process_url_def)
  next
    case False
    let ?st1 = "st\<lparr>visited_urls := insert n (visited_urls st)\<rparr>"
    obtain st2 g where g: "booking_gate L S ?st1 url = (st2, g)" by fastforce
    note o = booking_gate_other[OF g]
    show ?thesis
    proof (cases g)
      case (Inl e)
      then show ?thesis using assms Inr False g o by (auto simp: process_url_def)
    next
      case (Inr go)
      show ?thesis
      proof (cases go)
        case True
        show ?thesis
        proof (cases "delay S < 0")
          case neg: True
          have "st' = st2" using assms \<open>normalize_url L url = Inr n\<close> False g Inr True neg
            by (simp add: process_url_def)
          then show ?thesis using o \<open>normalize_url L url = Inr n\<close> False by auto
        next
          case nonneg: False
          obtain st3 new where f: "fetch_and_extract L S W st2 url = (st3, new)" by fastforce
          note ff = fetch_and_extract_fields[OF f]
          have "st' = st3"
            using assms \<open>normalize_url L url = Inr n\<close> False g Inr True f nonneg
            by (simp add: process_url_def)
          then show ?thesis using ff o \<open>normalize_url L url = Inr n\<close> False by auto
        qed
      next
        case False
        then show ?thesis using assms \<open>normalize_url L url = Inr n\<close> \<open>n \<notin> visited_urls st\<close> g Inr o
          by (auto simp: process_url_def)
      qed
    qed
  qed
qed

lemma process_url_visited_mono:
  "visited_urls st \<subseteq> visited_urls (fst (process_url L S W st url))"
  using process_url_cases[of L S W st url] by (cases "process_url L S W st url") auto

lemma process_url_fetched_once:
  assumes "fetched_once L st"
  shows "fetched_once L (fst (process_url L S W st url))"
proof -
  obtain st' r where p: "process_url L S W st url = (st', r)" by fastforce
  from process_url_cases[OF p] show ?thesis
  proof
    assume "visited_urls st' = visited_urls st \<and> fetched st' = fetched st"
    then show ?thesis using assms p by (simp add: fetched_once_def)
  next
    assume "\<exists>n. normalize_url L url = Inr n \<and> n \<notin> visited_urls st
             \<and> visited_urls st' = insert n (visited_urls st)
             \<and> (fetched st' = fetched st \<or> fetched st' = fetched st @ [url])"
    then obtain n where n: "normalize_url L url = Inr n" "n \<notin> visited_urls st"
      "visited_urls st' = insert n (visited_urls st)"
      "fetched st' = fetched st \<or> fetched st' = fetched st @ [url]" by blast
    have new: "normalize_url L url \<notin> normalize_url L ` set (fetched st)"
      using assms n(1,2) by (auto simp: fetched_once_def)
    from n(4) show ?thesis
    proof
      assume "fetched st' = fetched st"
      then show ?thesis using assms p n(3) by (auto simp: fetched_once_def)
    next
      assume "fetched st' = fetched st @ [url]"
      then show ?thesis using assms p n(1,3) new by (auto simp: fetched_once_def)
    qed
  qed
qed

lemma fetched_once_init: "fetched_once L init_state"
  by (simp add: fetched_once_def init_state_def)

lemma offer_all_fetched_once:
  "fetched_once L st \<Longrightarrow> fetched_once L (offer_all L S W st urls)"
  unfolding offer_all_def
  by (induction urls arbitrary: st) (simp_all add: process_url_fetched_once)

lemma offer_all_visited_mono:
  "visited_urls st \<subseteq> visited_urls (offer_all L S W st urls)"
  unfolding offer_all_def
proof (induction urls arbitrary: st)
  case Nil
  then show ?case by simp
next
  case (Cons u us)
  show ?case using process_url_visited_mono[of st L S W u] Cons[of "fst (process_url L S W st u)"]
    by auto
qed

lemma same_normal_form_once:
  assumes "fetched_once L st" "\<forall>u \<in> set (fetched st). normalize_url L u = Inr n"
  shows "length (fetched st) \<le> 1"
proof -
  have "distinct (map (normalize_url L) (fetched st))" using assms(1) by (simp add: fetched_once_def)
  moreover have "map (normalize_url L) (fetched st) = replicate (length (fetched st)) (Inr n)"
    using assms(2) by (simp add: map_replicate_const[symmetric] cong: map_cong)
  ultimately have "distinct (replicate (length (fetched st)) (Inr n :: error + string))" by simp
  then show ?thesis by (cases "fetched st"; cases "tl (fetched st)") (auto simp: Suc_le_eq)
qed

lemma offer_all_fetched_subset:
  "set (fetched (offer_all L S W st urls)) \<subseteq> set (fetched st) \<union> set urls"
  unfolding offer_all_def
proof (induction urls arbitrary: st)
  case Nil
  then show ?case by simp
next
  case (Cons u us)
  obtain st' r where p: "process_url L S W st u = (st', r)" by fastforce
  have "set (fetched st') \<subseteq> set (fetched st) \<union> {u}"
    using process_url_cases[OF p] by auto
  then show ?case using Cons[of st'] p by auto
qed

lemma seed_state: "\<exists>M. fst (seed L S st pg) = st\<lparr>main_page_links := M\<rparr>"
  by (auto simp: seed_def Let_def split: prod.splits option.splits sum.splits)

lemma explore_subdomain_state:
  "fst (explore_subdomain L S W st utv url) = st\<lparr>requested := requested st @ [url]\<rparr>"
  by (simp add: explore_subdomain_def Let_def split: response.splits)

lemma priority_loop_preserves:
  assumes proc: "\<And>st url. P st \<Longrightarrow> P (fst (process_url L S W st url))"
    and req: "\<And>st n. P st \<Longrightarrow> P (st\<lparr>requested := n\<rparr>)"
  shows "P st \<Longrightarrow> P (fst (fst (priority_loop L S W st utv urls)))"
proof (induction urls arbitrary: st utv)
  case Nil
  then show ?case by simp
next
  case (Cons url urls)
  show ?case
  proof (cases "url \<in> visited_urls st")
    case True
    then show ?thesis using Cons by simp
  next
    case False
    obtain st1 r where p: "process_url L S W st url = (st1, r)" by fastforce
    have st1: "P st1" using proc[OF Cons.prems, of url] p by simp
    have st2: "P (fst (explore_subdomain L S W st1 utv url))"
      using req[OF st1] by (simp add: explore_subdomain_state)
    show ?thesis
      using False p st1 st2 Cons.IH
      by (auto split: sum.splits prod.splits)
  qed
qed

lemma crawl_loop_preserves:
  "(\<And>st url. P st \<Longrightarrow> P (fst (process_url L S W st url))) \<Longrightarrow> P st
   \<Longrightarrow> crawl_loop fuel L S W st utv = Some st' \<Longrightarrow> P st'"
proof (induction fuel L S W st utv rule: crawl_loop.induct)
  case (1 fuel L S W st)
  then show ?case by simp
next
  case (2 L S W st u us)
  then show ?case by simp
next
  case (3 fuel L S W st u us)
  note proc = "3.prems"(1)
  note Pst = "3.prems"(2)
  note run = "3.prems"(3)
  show ?case
  proof (cases "sort_by_priority L st (u # us)")
    case (Inl e)
    then show ?thesis using 3 by simp
  next
    case (Inr ordered)
    show ?thesis
    proof (cases ordered)
      case Nil
      then show ?thesis using 3 Inr by simp
    next
      case (Cons url rest)
      show ?thesis
      proof (cases "url \<in> visited_urls st")
        case True
        then show ?thesis using 3 Inr Cons by simp
      next
        case False
        obtain st1 r where p: "process_url L S W st url = (st1, r)" by fastforce
        have st1: "P st1" using proc[OF Pst, of url] p by simp
        show ?thesis
        proof (cases r)
          case (Inl e)
          then show ?thesis using 3 \<open>sort_by_priority L st (u # us) = Inr ordered\<close> Cons False p st1 by simp
        next
          case (Inr new_urls)
          show ?thesis
            using "3.IH"(2)[OF \<open>sort_by_priority L st (u # us) = Inr ordered\<close> Cons False p[symmetric] Inr proc st1]
                  run \<open>sort_by_priority L st (u # us) = Inr ordered\<close> Cons False p Inr
            by simp
        qed
      qed
    qed
  qed
qed

lemma crawl_preserves:
  assumes init: "P init_state"
    and proc: "\<And>st url. P st \<Longrightarrow> P (fst (process_url L S W st url))"
    and req: "\<And>st n. P st \<Longrightarrow> P (st\<lparr>requested := n\<rparr>)"
    and mpl: "\<And>st M. P st \<Longrightarrow> P (st\<lparr>main_page_links := M\<rparr>)"
    and run: "crawl fuel L S W = Some st'"
  shows "P st'"
proof -
  let ?st0 = "init_state\<lparr>requested := [base_url S]\<rparr>"
  have p0: "P ?st0" using req[OF init] .
  show ?thesis
  proof (cases "W 0 (base_url S)")
    case RequestException
    then show ?thesis using run p0 by (simp add: crawl_def)
  next
    case (Response status pg)
    define sd where "sd = (if status = 200 then seed L S ?st0 pg else (?st0, Inr []))"
    obtain st1 r1 where sd1: "sd = (st1, r1)" by fastforce
    have p1: "P st1"
    proof (cases "status = 200")
      case True
      obtain M where "fst (seed L S ?st0 pg) = ?st0\<lparr>main_page_links := M\<rparr>"
        using seed_state by blast
      then show ?thesis using True sd1 mpl[OF p0, of M] by (simp add: sd_def)
    next
      case False
      then show ?thesis using sd1 p0 by (simp add: sd_def)
    qed
    obtain st2 r2 where pr: "process_url L S W st1 (base_url S) = (st2, r2)" by fastforce
    have p2: "P st2" using proc[OF p1, of "base_url S"] pr by simp
    have unfold: "crawl fuel L S W =
       (case r1 of Inl e \<Rightarrow> Some st1
        | Inr priority_urls \<Rightarrow>
            (case r2 of Inl e \<Rightarrow> Some st2
             | Inr new_urls \<Rightarrow>
                 (case priority_loop L S W st2 [base_url S] priority_urls of
                    ((st3, urls_to_visit), Some e) \<Rightarrow> Some st3
                  | ((st3, urls_to_visit), None) \<Rightarrow> crawl_loop fuel L S W st3 urls_to_visit)))"
      using Response sd1 pr unfolding crawl_def sd_def Let_def
      by (simp split: sum.splits)
    show ?thesis
    proof (cases r1)
      case (Inl e)
      then show ?thesis using run unfold p1 by simp
    next
      case (Inr priority_urls)
      note r1 = Inr
      show ?thesis
      proof (cases r2)
        case (Inl e)
        then show ?thesis using run unfold r1 p2 by simp
      next
        case (Inr new_urls)
        obtain st3 utv r3 where pl: "priority_loop L S W st2 [base_url S] priority_urls = ((st3, utv), r3)"
          by (metis surj_pair)
        have p3: "P st3"
          using priority_loop_preserves[of P L S W st2 "[base_url S]" priority_urls, OF proc req p2] pl
          by simp
        show ?thesis
        proof (cases r3)
          case None
          then have "crawl_loop fuel L S W st3 utv = Some st'"
            using run unfold r1 Inr pl by simp
          then show ?thesis using crawl_loop_preserves[of P L S W st3 fuel utv st'] proc p3 by blast
        next
          case (Some e)
          then show ?thesis using run unfold r1 Inr pl p3 by simp
        qed
      qed
    qed
  qed
qed

lemma crawl_fetched_once:
  assumes "crawl fuel L S W = Some st"
  shows "fetched_once L st"
proof (rule crawl_preserves[where P = "fetched_once L", OF _ _ _ _ assms])
  show "fetched_once L init_state" by (rule fetched_once_init)
next
  fix st url assume "fetched_once L st"
  then show "fetched_once L (fst (process_url L S W st url))" by (rule process_url_fetched_once)
next
  fix st n assume "fetched_once L st"
  then show "fetched_once L (st\<lparr>requested := n\<rparr>)" by (simp add: fetched_once_def)
next
  fix st M assume "fetched_once L st"
  then show "fetched_once L (st\<lparr>main_page_links := M\<rparr>)" by (simp add: fetched_once_def)
qed








section \<open>The example site\<close>

lemma demo_fields:
  "tld_extract demo_lib = demo_tld"
  "base_url demo_scraper = ''https://www.hotel.com''"
  "root_domain demo_scraper = ''hotel.com''"
  "max_booking_urls demo_scraper = 1"
  "delay demo_scraper = 1"
  by (simp_all add: demo_lib_def demo_scraper_def)

lemmas parsed_eval =
  booking_parsed_def normalize_parsed_def rstrip_def lower_def lower_char_def
  potential_booking_domains_def booking_path_terms_def file_extensions_def endswith_def
  demo_tld_def demo_fields

lemma parse_home:
  "urlparse demo_lib ''https://www.hotel.com'' =
     Inr \<lparr>scheme = ''https'', netloc = ''www.hotel.com'', path = '''', params = [],
           query = [], fragment = []\<rparr>"
  by (simp add: url_eval)

lemma facts_home:
  "normalize_url demo_lib ''https://www.hotel.com'' = Inr ''https://www.hotel.com''"
  "is_booking_url demo_lib ''https://www.hotel.com'' = Inr False"
  "is_valid_url demo_lib demo_scraper ''https://www.hotel.com'' = Inr True"
  "demo_tld ''https://www.hotel.com'' = (''www'', ''hotel'', ''com'')"
  by (simp_all add: normalize_url_def is_booking_url_def is_valid_url_def is_same_site_def
        parse_home parsed_eval)

lemma parse_rooms:
  "urlparse demo_lib ''https://www.hotel.com/rooms'' =
     Inr \<lparr>scheme = ''https'', netloc = ''www.hotel.com'', path = ''/rooms'', params = [],
           query = [], fragment = []\<rparr>"
  by (simp add: url_eval)

lemma facts_rooms:
  "normalize_url demo_lib ''https://www.hotel.com/rooms'' = Inr ''https://www.hotel.com/rooms''"
  "is_booking_url demo_lib ''https://www.hotel.com/rooms'' = Inr False"
  "is_valid_url demo_lib demo_scraper ''https://www.hotel.com/rooms'' = Inr True"
  "demo_tld ''https://www.hotel.com/rooms'' = (''www'', ''hotel'', ''com'')"
  by (simp_all add: normalize_url_def is_booking_url_def is_valid_url_def is_same_site_def
        parse_rooms parsed_eval)

lemma parse_suites:
  "urlparse demo_lib ''https://www.hotel.com/suites'' =
     Inr \<lparr>scheme = ''https'', netloc = ''www.hotel.com'', path = ''/suites'', params = [],
           query = [], fragment = []\<rparr>"
  by (simp add: url_eval)

lemma facts_suites:
  "normalize_url demo_lib ''https://www.hotel.com/suites'' = Inr ''https://www.hotel.com/suites''"
  "is_booking_url demo_lib ''https://www.hotel.com/suites'' = Inr False"
  "is_valid_url demo_lib demo_scraper ''https://www.hotel.com/suites'' = Inr True"
  "demo_tld ''https://www.hotel.com/suites'' = (''www'', ''hotel'', ''com'')"
  by (simp_all add: normalize_url_def is_booking_url_def is_valid_url_def is_same_site_def
        parse_suites parsed_eval)

lemma parse_dining:
  "urlparse demo_lib ''https://www.hotel.com/dining'' =
     Inr \<lparr>scheme = ''https'', netloc = ''www.hotel.com'', path = ''/dining'', params = [],
           query = [], fragment = []\<rparr>"
  by (simp add: url_eval)

lemma facts_dining:
  "normalize_url demo_lib ''https://www.hotel.com/dining'' = Inr ''https://www.hotel.com/dining''"
  "is_booking_url demo_lib ''https://www.hotel.com/dining'' = Inr False"
  "is_valid_url demo_lib demo_scraper ''https://www.hotel.com/dining'' = Inr True"
  "demo_tld ''https://www.hotel.com/dining'' = (''www'', ''hotel'', ''com'')"
  by (simp_all add: normalize_url_def is_booking_url_def is_valid_url_def is_same_site_def
        parse_dining parsed_eval)

lemma parse_spa:
  "urlparse demo_lib ''https://www.hotel.com/spa'' =
     Inr \<lparr>scheme = ''https'', netloc = ''www.hotel.com'', path = ''/spa'', params = [],
           query = [], fragment = []\<rparr>"
  by (simp add: url_eval)

lemma facts_spa:
  "normalize_url demo_lib ''https://www.hotel.com/spa'' = Inr ''https://www.hotel.com/spa''"
  "is_booking_url demo_lib ''https://www.hotel.com/spa'' = Inr False"
  "is_valid_url demo_lib demo_scraper ''https://www.hotel.com/spa'' = Inr True"
  "demo_tld ''https://www.hotel.com/spa'' = (''www'', ''hotel'', ''com'')"
  by (simp_all add: normalize_url_def is_booking_url_def is_valid_url_def is_same_site_def
        parse_spa parsed_eval)

lemma parse_gallery:
  "urlparse demo_lib ''https://www.hotel.com/gallery'' =
     Inr \<lparr>scheme = ''https'', netloc = ''www.hotel.com'', path = ''/gallery'', params = [],
           query = [], fragment = []\<rparr>"
  by (simp add: url_eval)

lemma facts_gallery:
  "normalize_url demo_lib ''https://www.hotel.com/gallery'' = Inr ''https://www.hotel.com/gallery''"
  "is_booking_url demo_lib ''https://www.hotel.com/gallery'' = Inr False"
  "is_valid_url demo_lib demo_scraper ''https://www.hotel.com/gallery'' = Inr True"
  "demo_tld ''https://www.hotel.com/gallery'' = (''www'', ''hotel'', ''com'')"
  by (simp_all add: normalize_url_def is_booking_url_def is_valid_url_def is_same_site_def
        parse_gallery parsed_eval)

lemma parse_contact:
  "urlparse demo_lib ''https://www.hotel.com/contact'' =
     Inr \<lparr>scheme = ''https'', netloc = ''www.hotel.com'', path = ''/contact'', params = [],
           query = [], fragment = []\<rparr>"
  by (simp add: url_eval)

lemma facts_contact:
  "normalize_url demo_lib ''https://www.hotel.com/contact'' = Inr ''https://www.hotel.com/contact''"
  "is_booking_url demo_lib ''https://www.hotel.com/contact'' = Inr False"
  "is_valid_url demo_lib demo_scraper ''https://www.hotel.com/contact'' = Inr True"
  "demo_tld ''https://www.hotel.com/contact'' = (''www'', ''hotel'', ''com'')"
  by (simp_all add: normalize_url_def is_booking_url_def is_valid_url_def is_same_site_def
        parse_contact parsed_eval)

lemma parse_about:
  "urlparse demo_lib ''https://www.hotel.com/about'' =
     Inr \<lparr>scheme = ''https'', netloc = ''www.hotel.com'', path = ''/about'', params = [],
           query = [], fragment = []\<rparr>"
  by (simp add: url_eval)

lemma facts_about:
  "normalize_url demo_lib ''https://www.hotel.com/about'' = Inr ''https://www.hotel.com/about''"
  "is_booking_url demo_lib ''https://www.hotel.com/about'' = Inr False"
  "is_valid_url demo_lib demo_scraper ''https://www.hotel.com/about'' = Inr True"
  "demo_tld ''https://www.hotel.com/about'' = (''www'', ''hotel'', ''com'')"
  by (simp_all add: normalize_url_def is_booking_url_def is_valid_url_def is_same_site_def
        parse_about parsed_eval)

lemma parse_offers:
  "urlparse demo_lib ''https://www.hotel.com/offers'' =
     Inr \<lparr>scheme = ''https'', netloc = ''www.hotel.com'', path = ''/offers'', params = [],
           query = [], fragment = []\<rparr>"
  by (simp add: url_eval)

lemma facts_offers:
  "normalize_url demo_lib ''https://www.hotel.com/offers'' = Inr ''https://www.hotel.com/offers''"
  "is_booking_url demo_lib ''https://www.hotel.com/offers'' = Inr False"
  "is_valid_url demo_lib demo_scraper ''https://www.hotel.com/offers'' = Inr True"
  "demo_tld ''https://www.hotel.com/offers'' = (''www'', ''hotel'', ''com'')"
  by (simp_all add: normalize_url_def is_booking_url_def is_valid_url_def is_same_site_def
        parse_offers parsed_eval)

lemma parse_location:
  "urlparse demo_lib ''https://www.hotel.com/location'' =
     Inr \<lparr>scheme = ''https'', netloc = ''www.hotel.com'', path = ''/location'', params = [],
           query = [], fragment = []\<rparr>"
  by (simp add: url_eval)

lemma facts_location:
  "normalize_url demo_lib ''https://www.hotel.com/location'' = Inr ''https://www.hotel.com/location''"
  "is_booking_url demo_lib ''https://www.hotel.com/location'' = Inr False"
  "is_valid_url demo_lib demo_scraper ''https://www.hotel.com/location'' = Inr True"
  "demo_tld ''https://www.hotel.com/location'' = (''www'', ''hotel'', ''com'')"
  by (simp_all add: normalize_url_def is_booking_url_def is_valid_url_def is_same_site_def
        parse_location parsed_eval)

lemma parse_events:
  "urlparse demo_lib ''https://www.hotel.com/events'' =
     Inr \<lparr>scheme = ''https'', netloc = ''www.hotel.com'', path = ''/events'', params = [],
           query = [], fragment = []\<rparr>"
  by (simp add: url_eval)

lemma facts_events:
  "normalize_url demo_lib ''https://www.hotel.com/events'' = Inr ''https://www.hotel.com/events''"
  "is_booking_url demo_lib ''https://www.hotel.com/events'' = Inr False"
  "is_valid_url demo_lib demo_scraper ''https://www.hotel.com/events'' = Inr True"
  "demo_tld ''https://www.hotel.com/events'' = (''www'', ''hotel'', ''com'')"
  by (simp_all add: normalize_url_def is_booking_url_def is_valid_url_def is_same_site_def
        parse_events parsed_eval)

lemma parse_rooms_slash:
  "urlparse demo_lib ''https://www.hotel.com/rooms/'' =
     Inr \<lparr>scheme = ''https'', netloc = ''www.hotel.com'', path = ''/rooms/'', params = [],
           query = [], fragment = []\<rparr>"
  by (simp add: url_eval)

lemma facts_rooms_slash:
  "normalize_url demo_lib ''https://www.hotel.com/rooms/'' = Inr ''https://www.hotel.com/rooms''"
  "is_booking_url demo_lib ''https://www.hotel.com/rooms/'' = Inr False"
  "is_valid_url demo_lib demo_scraper ''https://www.hotel.com/rooms/'' = Inr True"
  "demo_tld ''https://www.hotel.com/rooms/'' = (''www'', ''hotel'', ''com'')"
  by (simp_all add: normalize_url_def is_booking_url_def is_valid_url_def is_same_site_def
        parse_rooms_slash parsed_eval)

lemma parse_rooms_top:
  "urlparse demo_lib ''https://www.hotel.com/rooms#top'' =
     Inr \<lparr>scheme = ''https'', netloc = ''www.hotel.com'', path = ''/rooms'', params = [],
           query = [], fragment = ''top''\<rparr>"
  by (simp add: url_eval)

lemma facts_rooms_top:
  "normalize_url demo_lib ''https://www.hotel.com/rooms#top'' = Inr ''https://www.hotel.com/rooms''"
  "is_booking_url demo_lib ''https://www.hotel.com/rooms#top'' = Inr False"
  "is_valid_url demo_lib demo_scraper ''https://www.hotel.com/rooms#top'' = Inr True"
  "demo_tld ''https://www.hotel.com/rooms#top'' = (''www'', ''hotel'', ''com'')"
  by (simp_all add: normalize_url_def is_booking_url_def is_valid_url_def is_same_site_def
        parse_rooms_top parsed_eval)

lemma parse_booking_a:
  "urlparse demo_lib ''https://booking.hotel.com/a'' =
     Inr \<lparr>scheme = ''https'', netloc = ''booking.hotel.com'', path = ''/a'', params = [],
           query = [], fragment = []\<rparr>"
  by (simp add: url_eval)

lemma facts_booking_a:
  "normalize_url demo_lib ''https://booking.hotel.com/a'' = Inr ''https://booking.hotel.com/a''"
  "is_booking_url demo_lib ''https://booking.hotel.com/a'' = Inr True"
  "demo_tld ''https://booking.hotel.com/a'' = (''www'', ''hotel'', ''com'')"
  by (simp_all add: normalize_url_def is_booking_url_def is_valid_url_def is_same_site_def
        parse_booking_a parsed_eval)

lemma parse_reserve_b:
  "urlparse demo_lib ''https://reserve.hotel.com/b'' =
     Inr \<lparr>scheme = ''https'', netloc = ''reserve.hotel.com'', path = ''/b'', params = [],
           query = [], fragment = []\<rparr>"
  by (simp add: url_eval)

lemma facts_reserve_b:
  "normalize_url demo_lib ''https://reserve.hotel.com/b'' = Inr ''https://reserve.hotel.com/b''"
  "is_booking_url demo_lib ''https://reserve.hotel.com/b'' = Inr True"
  "demo_tld ''https://reserve.hotel.com/b'' = (''www'', ''hotel'', ''com'')"
  by (simp_all add: normalize_url_def is_booking_url_def is_valid_url_def is_same_site_def
        parse_reserve_b parsed_eval)

lemma parse_booking_c:
  "urlparse demo_lib ''https://booking.hotel.com/c'' =
     Inr \<lparr>scheme = ''https'', netloc = ''booking.hotel.com'', path = ''/c'', params = [],
           query = [], fragment = []\<rparr>"
  by (simp add: url_eval)

lemma facts_booking_c:
  "normalize_url demo_lib ''https://booking.hotel.com/c'' = Inr ''https://booking.hotel.com/c''"
  "is_booking_url demo_lib ''https://booking.hotel.com/c'' = Inr True"
  "demo_tld ''https://booking.hotel.com/c'' = (''www'', ''hotel'', ''com'')"
  by (simp_all add: normalize_url_def is_booking_url_def is_valid_url_def is_same_site_def
        parse_booking_c parsed_eval)

lemmas demo_site_facts =
  parse_home facts_home parse_rooms facts_rooms parse_suites facts_suites parse_dining facts_dining parse_spa facts_spa parse_gallery facts_gallery parse_contact facts_contact parse_about facts_about parse_offers facts_offers parse_location facts_location parse_events facts_events parse_rooms_slash facts_rooms_slash parse_rooms_top facts_rooms_top parse_booking_a facts_booking_a parse_reserve_b facts_reserve_b parse_booking_c facts_booking_c

lemmas crawl_eval =
  process_url_def booking_gate_def fetch_and_extract_def extract_new_urls_def
  init_state_def demo_web_def empty_page_def demo_menu_def demo_site_facts demo_fields

lemma priority_home:
  "is_priority_url demo_lib st ''https://www.hotel.com''
     = Inr (''https://www.hotel.com'' \<in> main_page_links st)"
  by (simp add: is_priority_url_def parse_home facts_home language_prefixes_def
        priority_paths_def potential_booking_domains_def lower_def lower_char_def
        demo_fields demo_tld_def)

lemma crawl_demo:
  "map_option (\<lambda>st. (map fst (markdown_content st), requested st, fetched st))
     (crawl 1 demo_lib demo_scraper demo_web)
   = Some (''https://www.hotel.com'' # demo_menu,
           ''https://www.hotel.com'' # ''https://www.hotel.com'' # demo_menu,
           ''https://www.hotel.com'' # demo_menu)"
  by (simp add: crawl_def seed_def explore_subdomain_def sort_by_priority_def priority_home
        language_prefixes_def crawl_eval)

lemma offers_rooms:
  "fetched (offer_all demo_lib demo_scraper demo_web init_state
      [''https://www.hotel.com/rooms'', ''https://www.hotel.com/rooms/'',
       ''https://www.hotel.com/rooms#top''])
   = [''https://www.hotel.com/rooms'']"
  by (simp add: offer_all_def crawl_eval)


section \<open>C3: at-most-once visitation\<close>

text \<open>
  C3, as the code has it. \<open>_process_url\<close> never removes a URL from \<open>visited_urls\<close>.
  However many URLs are offered to it, in any order, no two of the requests that
  \<open>_process_url\<close> makes are for URLs with the same normal form; when every offered URL
  has the normal form \<open>n\<close>, it requests at most one page. The same holds for the
  requests of \<open>_process_url\<close> over a whole \<open>crawl\<close>.
\<close>

theorem at_most_once_visitation:
  "visited_urls st \<subseteq> visited_urls (fst (process_url L S W st url))
   \<and> visited_urls st \<subseteq> visited_urls (offer_all L S W st urls)
   \<and> distinct (map (normalize_url L) (fetched (offer_all L S W init_state urls)))
   \<and> ((\<forall>u \<in> set urls. normalize_url L u = Inr n)
        \<longrightarrow> length (fetched (offer_all L S W init_state urls)) \<le> 1)
   \<and> (crawl fuel L S W = Some st' \<longrightarrow> distinct (map (normalize_url L) (fetched st')))"
proof -
  have once: "fetched_once L (offer_all L S W init_state urls)"
    by (rule offer_all_fetched_once[OF fetched_once_init])
  have sub: "set (fetched (offer_all L S W init_state urls)) \<subseteq> set urls"
    using offer_all_fetched_subset[of L S W init_state urls] by (simp add: init_state_def)
  have "(\<forall>u \<in> set urls. normalize_url L u = Inr n)
        \<longrightarrow> length (fetched (offer_all L S W init_state urls)) \<le> 1"
    using same_normal_form_once[OF once, of n] sub by blast
  moreover have "distinct (map (normalize_url L) (fetched (offer_all L S W init_state urls)))"
    using once by (simp add: fetched_once_def)
  moreover have "crawl fuel L S W = Some st' \<longrightarrow> distinct (map (normalize_url L) (fetched st'))"
    using crawl_fetched_once[of fuel L S W st'] by (simp add: fetched_once_def)
  ultimately show ?thesis
    using process_url_visited_mono[of st L S W url] offer_all_visited_mono[of st L S W urls]
    by blast
qed

theorem at_most_once_visitation_witness:
  "normalize_url demo_lib ''https://www.hotel.com/rooms'' = Inr ''https://www.hotel.com/rooms''
   \<and> normalize_url demo_lib ''https://www.hotel.com/rooms/''
       = Inr ''https://www.hotel.com/rooms''
   \<and> normalize_url demo_lib ''https://www.hotel.com/rooms#top''
       = Inr ''https://www.hotel.com/rooms''
   \<and> length (fetched (offer_all demo_lib demo_scraper demo_web init_state
         [''https://www.hotel.com/rooms'', ''https://www.hotel.com/rooms/'',
          ''https://www.hotel.com/rooms#top''])) \<le> 1
   \<and> fetched (offer_all demo_lib demo_scraper demo_web init_state
         [''https://www.hotel.com/rooms'', ''https://www.hotel.com/rooms/'',
          ''https://www.hotel.com/rooms#top'']) = [''https://www.hotel.com/rooms'']
   \<and> crawl 1 demo_lib demo_scraper demo_web \<noteq> None
   \<and> distinct (map (normalize_url demo_lib)
         (fetched (the (crawl 1 demo_lib demo_scraper demo_web))))"
proof -
  let ?urls = "[''https://www.hotel.com/rooms'', ''https://www.hotel.com/rooms/'',
                ''https://www.hotel.com/rooms#top'']"
  have same: "\<forall>u \<in> set ?urls. normalize_url demo_lib u = Inr ''https://www.hotel.com/rooms''"
    by (simp add: facts_rooms facts_rooms_slash facts_rooms_top)
  obtain st' where run: "crawl 1 demo_lib demo_scraper demo_web = Some st'"
    using crawl_demo by (cases "crawl 1 demo_lib demo_scraper demo_web") auto
  show ?thesis
    using at_most_once_visitation
            [where st = init_state and L = demo_lib and S = demo_scraper and W = demo_web
               and url = "''https://www.hotel.com/rooms''" and urls = ?urls
               and n = "''https://www.hotel.com/rooms''" and fuel = 1 and st' = st']
          same run offers_rooms
    by (simp add: facts_rooms facts_rooms_slash facts_rooms_top)
qed

text \<open>
  C3 as stated fails: in a session a page can be requested twice. \<open>crawl\<close> asks for
  the landing page itself, to seed the priority list, and \<open>_process_url\<close> asks for it
  again: on the example site the log of the session holds twelve requests for eleven
  pages, the landing page twice.
\<close>

theorem landing_page_requested_twice_counterexample:
  "map_option requested (crawl 1 demo_lib demo_scraper demo_web)
     = Some (''https://www.hotel.com'' # ''https://www.hotel.com'' # demo_menu)
   \<and> \<not> distinct (''https://www.hotel.com'' # ''https://www.hotel.com'' # demo_menu)"
proof -
  obtain st where run: "crawl 1 demo_lib demo_scraper demo_web = Some st"
    and log: "requested st = ''https://www.hotel.com'' # ''https://www.hotel.com'' # demo_menu"
    using crawl_demo by (cases "crawl 1 demo_lib demo_scraper demo_web") auto
  show ?thesis using run log by simp
qed

section \<open>C4: the booking limit\<close>




section \<open>C5: qualification thresholds\<close>

lemma size_kb_float: "(real n / 1024 < real_of_int k) = (int n < k * 1024)"
proof -
  have "(real n / 1024 < real_of_int k) = (real n < real_of_int k * 1024)"
    by (simp add: divide_less_eq)
  also have "\<dots> = (real_of_int (int n) < real_of_int (k * 1024))" by simp
  also have "\<dots> = (int n < k * 1024)" by (simp only: of_int_less_iff)
  finally show ?thesis .
qed

lemma download_image_crawl_accepts:
  assumes "net E (img_requests st) GET url = Answer r" "\<not> raise_for_status r"
    and "prefix ''image/'' (content_type_of r)" "image_size E (body r) = Some (w, h)"
    and "urlparse (lib E) url = Inr parsed"
    and "file_write_ok E (crawl_filename E url parsed)"
  shows "(downloaded_count (download_image_crawl E D st url) = Suc (downloaded_count st))
         = (min_size_kb D * 1024 \<le> int (length (body r))
            \<and> min_width D \<le> int w \<and> min_height D \<le> int h)"
  using assms by (auto simp: download_image_crawl_def Let_def size_kb_float)

lemma get_image_info_accepts:
  assumes "net E (img_requests st) HEAD url = Answer hd_r"
    and "prefix ''image/'' (content_type_of hd_r)"
    and "header_content_length hd_r = NoHeader
         \<or> header_content_length hd_r = Len (int (length (body r)))"
    and "net E (Suc (img_requests st)) GET url = Answer r"
    and "image_size E (body r) = Some (w, h)"
  shows "fst (snd (get_image_info E D st url))
         = (min_size_kb D * 1024 \<le> int (length (body r))
            \<and> min_width D \<le> int w \<and> min_height D \<le> int h)"
  using assms by (auto simp: get_image_info_def Let_def split: if_splits)

text \<open>
  C5. For an image that the server delivers with an \<open>image/\<close> content type and that
  decodes to \<open>w\<close> by \<open>h\<close> pixels, \<open>_download_image\<close> saves and counts it (the file
  system taking the file), and \<open>get_image_info\<close> calls it valid, exactly when its size in bytes is at least \<open>min_size_kb * 1024\<close>, \<open>w\<close>
  is at least \<open>min_width\<close> and \<open>h\<close> is at least \<open>min_height\<close>: equal to a minimum
  passes, one byte or one pixel under fails.
\<close>

theorem qualification_thresholds:
  "(net E (img_requests st) GET url = Answer r \<and> \<not> raise_for_status r
      \<and> prefix ''image/'' (content_type_of r) \<and> image_size E (body r) = Some (w, h)
      \<and> urlparse (lib E) url = Inr parsed
      \<and> file_write_ok E (crawl_filename E url parsed)
    \<longrightarrow> (downloaded_count (download_image_crawl E D st url) = Suc (downloaded_count st))
         = (min_size_kb D * 1024 \<le> int (length (body r))
            \<and> min_width D \<le> int w \<and> min_height D \<le> int h))
   \<and> (net E (img_requests st) HEAD url = Answer hd_r
      \<and> prefix ''image/'' (content_type_of hd_r)
      \<and> (header_content_length hd_r = NoHeader
          \<or> header_content_length hd_r = Len (int (length (body r))))
      \<and> net E (Suc (img_requests st)) GET url = Answer r
      \<and> image_size E (body r) = Some (w, h)
    \<longrightarrow> fst (snd (get_image_info E D st url))
         = (min_size_kb D * 1024 \<le> int (length (body r))
            \<and> min_width D \<le> int w \<and> min_height D \<le> int h))"
  using download_image_crawl_accepts[of E st url r w h parsed D]
        get_image_info_accepts[of E st url hd_r r w h D]
  by blast

section \<open>The example image server\<close>

lemma demo_bytes_facts:
  "length (demo_bytes w h 2048) = 2048"
  "length (demo_bytes w h 2047) = 2047"
  "demo_image_size (demo_bytes w h n) = Some (w, h)"
  by (simp_all add: demo_bytes_def demo_image_size_def)

lemma demo_env_fields:
  "net demo_env = demo_net" "image_size demo_env = demo_image_size" "lib demo_env = demo_lib"
  "md5_hexdigest demo_env (demo_bytes 3 2 2048) = ''9f2c''"
  "hash_mod_10000 demo_env u = ''4711''"
  "file_write_ok demo_env name = True"
  "img_delay demo_downloader = 1"
  "min_width demo_downloader = 3" "min_height demo_downloader = 2"
  "min_size_kb demo_downloader = 2" "max_pages demo_downloader = 3"
  "domain demo_downloader = ''www.hotel.com''"
  "img_base_url demo_downloader = ''https://www.hotel.com''"
  by (simp_all add: demo_env_def demo_downloader_def)

lemma demo_image_fields:
  "raise_for_status \<lparr>status_code = 200, header_content_type = Some ''image/jpeg'',
      header_content_length = NoHeader, body = bs\<rparr> = False"
  "content_type_of \<lparr>status_code = 200, header_content_type = Some ''image/jpeg'',
      header_content_length = NoHeader, body = bs\<rparr> = ''image/jpeg''"
  by (simp_all add: raise_for_status_def content_type_of_def)

lemma demo_paths:
  "urlparse demo_lib ''https://www.hotel.com/img/a/pool.jpg''
     = Inr \<lparr>scheme = ''https'', netloc = ''www.hotel.com'', path = ''/img/a/pool.jpg'',
             params = [], query = [], fragment = []\<rparr>"
  "urlparse demo_lib ''https://www.hotel.com/img/b/pool-copy.jpg''
     = Inr \<lparr>scheme = ''https'', netloc = ''www.hotel.com'', path = ''/img/b/pool-copy.jpg'',
             params = [], query = [], fragment = []\<rparr>"
  "urlparse demo_lib ''https://www.hotel.com/img/narrow.jpg''
     = Inr \<lparr>scheme = ''https'', netloc = ''www.hotel.com'', path = ''/img/narrow.jpg'',
             params = [], query = [], fragment = []\<rparr>"
  "urlparse demo_lib ''https://www.hotel.com/img/low.jpg''
     = Inr \<lparr>scheme = ''https'', netloc = ''www.hotel.com'', path = ''/img/low.jpg'',
             params = [], query = [], fragment = []\<rparr>"
  "urlparse demo_lib ''https://www.hotel.com/img/short.jpg''
     = Inr \<lparr>scheme = ''https'', netloc = ''www.hotel.com'', path = ''/img/short.jpg'',
             params = [], query = [], fragment = []\<rparr>"
  by (simp_all add: url_eval)

lemma demo_basenames:
  "basename ''/img/a/pool.jpg'' = ''pool.jpg''"
  "basename ''/img/b/pool-copy.jpg'' = ''pool-copy.jpg''"
  by (simp_all add: basename_def)

lemmas img_eval =
  demo_env_fields demo_image_fields demo_bytes_facts demo_paths demo_basenames
  demo_net_def demo_image_def img_init_state_def set_add_def crawl_filename_def

lemma pipeline_two_copies:
  "download_images demo_env demo_downloader
     (img_init_state\<lparr>image_urls := [''https://www.hotel.com/img/a/pool.jpg'',
                                     ''https://www.hotel.com/img/b/pool-copy.jpg'']\<rparr>)
   = \<lparr>visited = [], image_urls = [], downloaded_count = 2,
       files = [(''pool.jpg'', demo_bytes 3 2 2048), (''pool-copy.jpg'', demo_bytes 3 2 2048)],
       sleeps = [], img_requests = 2\<rparr>"
  by (simp add: download_images_def download_image_crawl_def img_eval)

lemma sibling_first:
  "download_image demo_env demo_downloader 3 img_init_state
     ''https://www.hotel.com/img/a/pool.jpg''
   = (\<lparr>visited = [], image_urls = [''9f2c''], downloaded_count = 1,
        files = [(''pool.jpg'', demo_bytes 3 2 2048)], sleeps = [], img_requests = 3\<rparr>,
      Some True)"
  by (simp add: download_image_def download_attempt_def get_image_info_def img_eval)

lemma sibling_second:
  "download_image demo_env demo_downloader 3
     \<lparr>visited = [], image_urls = [''9f2c''], downloaded_count = 1,
        files = [(''pool.jpg'', demo_bytes 3 2 2048)], sleeps = [], img_requests = 3\<rparr>
     ''https://www.hotel.com/img/b/pool-copy.jpg''
   = (\<lparr>visited = [], image_urls = [''9f2c''], downloaded_count = 1,
        files = [(''pool.jpg'', demo_bytes 3 2 2048)], sleeps = [], img_requests = 6\<rparr>,
      Some False)"
  by (simp add: download_image_def download_attempt_def get_image_info_def img_eval)

lemma pipeline_no_retry:
  "download_image_crawl demo_env demo_downloader img_init_state
     ''https://www.hotel.com/img/down.jpg''
   = img_init_state\<lparr>img_requests := 1\<rparr>"
  by (simp add: download_image_crawl_def img_eval)

lemma sibling_retries:
  "download_image demo_env demo_downloader 3 img_init_state
     ''https://www.hotel.com/img/flaky.jpg''
   = (img_init_state\<lparr>sleeps := [1, 2], img_requests := 9\<rparr>, Some False)"
  by (simp add: download_image_def download_attempt_def get_image_info_def img_eval)

lemma sibling_probe_failure:
  "download_image demo_env demo_downloader 3 img_init_state
     ''https://www.hotel.com/img/down.jpg''
   = (img_init_state\<lparr>img_requests := 1\<rparr>, Some False)"
  by (simp add: download_image_def download_attempt_def get_image_info_def img_eval)

section \<open>C5: the thresholds on the example server\<close>

theorem qualification_thresholds_witness:
  "downloaded_count (download_image_crawl demo_env demo_downloader img_init_state
       ''https://www.hotel.com/img/a/pool.jpg'') = 1
   \<and> fst (snd (get_image_info demo_env demo_downloader img_init_state
       ''https://www.hotel.com/img/a/pool.jpg''))
   \<and> downloaded_count (download_image_crawl demo_env demo_downloader img_init_state
       ''https://www.hotel.com/img/short.jpg'') = 0
   \<and> \<not> fst (snd (get_image_info demo_env demo_downloader img_init_state
       ''https://www.hotel.com/img/short.jpg''))
   \<and> downloaded_count (download_image_crawl demo_env demo_downloader img_init_state
       ''https://www.hotel.com/img/narrow.jpg'') = 0
   \<and> \<not> fst (snd (get_image_info demo_env demo_downloader img_init_state
       ''https://www.hotel.com/img/narrow.jpg''))
   \<and> downloaded_count (download_image_crawl demo_env demo_downloader img_init_state
       ''https://www.hotel.com/img/low.jpg'') = 0
   \<and> \<not> fst (snd (get_image_info demo_env demo_downloader img_init_state
       ''https://www.hotel.com/img/low.jpg''))"
proof -
  let ?r = "\<lparr>status_code = 200, header_content_type = Some ''image/jpeg'',
             header_content_length = NoHeader, body = demo_bytes 3 2 2048\<rparr>"
  let ?s = "\<lparr>status_code = 200, header_content_type = Some ''image/jpeg'',
             header_content_length = NoHeader, body = demo_bytes 3 2 2047\<rparr>"
  let ?p = "\<lparr>scheme = ''https'', netloc = ''www.hotel.com'', path = ''/img/a/pool.jpg'',
             params = [], query = [], fragment = []\<rparr>"
  let ?q = "\<lparr>scheme = ''https'', netloc = ''www.hotel.com'', path = ''/img/short.jpg'',
             params = [], query = [], fragment = []\<rparr>"
  have exact:
    "(downloaded_count (download_image_crawl demo_env demo_downloader img_init_state
        ''https://www.hotel.com/img/a/pool.jpg'') = Suc (downloaded_count img_init_state))"
    "fst (snd (get_image_info demo_env demo_downloader img_init_state
        ''https://www.hotel.com/img/a/pool.jpg''))"
    using qualification_thresholds
            [where E = demo_env and st = img_init_state
               and url = "''https://www.hotel.com/img/a/pool.jpg''" and r = ?r and w = 3
               and h = 2 and parsed = ?p and D = demo_downloader and hd_r = ?r]
    by (simp_all add: img_eval prefix_def)
  have under:
    "\<not> (downloaded_count (download_image_crawl demo_env demo_downloader img_init_state
        ''https://www.hotel.com/img/short.jpg'') = Suc (downloaded_count img_init_state))"
    "\<not> fst (snd (get_image_info demo_env demo_downloader img_init_state
        ''https://www.hotel.com/img/short.jpg''))"
    using qualification_thresholds
            [where E = demo_env and st = img_init_state
               and url = "''https://www.hotel.com/img/short.jpg''" and r = ?s and w = 3
               and h = 2 and parsed = ?q and D = demo_downloader and hd_r = ?s]
    by (simp_all add: img_eval prefix_def)
  have rest:
    "downloaded_count (download_image_crawl demo_env demo_downloader img_init_state
       ''https://www.hotel.com/img/short.jpg'') = 0"
    "downloaded_count (download_image_crawl demo_env demo_downloader img_init_state
       ''https://www.hotel.com/img/narrow.jpg'') = 0"
    "\<not> fst (snd (get_image_info demo_env demo_downloader img_init_state
       ''https://www.hotel.com/img/narrow.jpg''))"
    "downloaded_count (download_image_crawl demo_env demo_downloader img_init_state
       ''https://www.hotel.com/img/low.jpg'') = 0"
    "\<not> fst (snd (get_image_info demo_env demo_downloader img_init_state
       ''https://www.hotel.com/img/low.jpg''))"
    by (simp_all add: download_image_crawl_def get_image_info_def img_eval)
  show ?thesis using exact under rest by (simp add: img_init_state_def)
qed

section \<open>C1: byte-identical images\<close>

text \<open>
  C1 fails on the code. The crawl saves images through \<open>_download_image\<close>, which has no
  content hash: two URLs with the same bytes, both qualifying, give two files and
  \<open>downloaded_count = 2\<close>, and no hash is recorded. \<open>download_image\<close>, which nothing
  calls, does what the claim says: on the same two URLs it writes one file and keeps one
  hash.
\<close>

theorem duplicate_image_saved_twice:
  "demo_net 0 GET ''https://www.hotel.com/img/a/pool.jpg''
     = demo_net 1 GET ''https://www.hotel.com/img/b/pool-copy.jpg''
   \<and> download_images demo_env demo_downloader
        (img_init_state\<lparr>image_urls := [''https://www.hotel.com/img/a/pool.jpg'',
                                        ''https://www.hotel.com/img/b/pool-copy.jpg'']\<rparr>)
     = \<lparr>visited = [], image_urls = [], downloaded_count = 2,
         files = [(''pool.jpg'', demo_bytes 3 2 2048),
                  (''pool-copy.jpg'', demo_bytes 3 2 2048)],
         sleeps = [], img_requests = 2\<rparr>
   \<and> fst (download_image demo_env demo_downloader 3
          (fst (download_image demo_env demo_downloader 3 img_init_state
                  ''https://www.hotel.com/img/a/pool.jpg''))
          ''https://www.hotel.com/img/b/pool-copy.jpg'')
     = \<lparr>visited = [], image_urls = [''9f2c''], downloaded_count = 1,
         files = [(''pool.jpg'', demo_bytes 3 2 2048)], sleeps = [], img_requests = 6\<rparr>"
proof -
  have same: "demo_net 0 GET ''https://www.hotel.com/img/a/pool.jpg''
     = demo_net 1 GET ''https://www.hotel.com/img/b/pool-copy.jpg''"
    by (simp add: demo_net_def)
  have sibling: "fst (download_image demo_env demo_downloader 3
          (fst (download_image demo_env demo_downloader 3 img_init_state
                  ''https://www.hotel.com/img/a/pool.jpg''))
          ''https://www.hotel.com/img/b/pool-copy.jpg'')
     = \<lparr>visited = [], image_urls = [''9f2c''], downloaded_count = 1,
         files = [(''pool.jpg'', demo_bytes 3 2 2048)], sleeps = [], img_requests = 6\<rparr>"
    unfolding sibling_first fst_conv sibling_second by (rule refl)
  show ?thesis by (rule conjI[OF same conjI[OF pipeline_two_copies sibling]])
qed

section \<open>C10: retries\<close>

text \<open>A request that fails leaves \<open>_download_image\<close> at once: one request, no file.\<close>

lemma download_image_crawl_connection_error:
  "net E (img_requests st) GET url = ConnectionError \<Longrightarrow>
     download_image_crawl E D st url = st\<lparr>img_requests := Suc (img_requests st)\<rparr>"
  by (simp add: download_image_crawl_def)

text \<open>
  C10 fails on the code. \<open>_download_image\<close>, the method of the crawl, asks once: when
  the request fails the image is left out with no second try and no wait. The retry loop
  with waits of 1 and 2 seconds is in \<open>download_image\<close>, which nothing calls; there it
  covers the download request only, since a failure inside \<open>get_image_info\<close> is turned
  into "not valid".
\<close>

theorem crawl_download_not_retried:
  "download_image_crawl demo_env demo_downloader img_init_state
       ''https://www.hotel.com/img/down.jpg''
     = img_init_state\<lparr>img_requests := 1\<rparr>
   \<and> download_image demo_env demo_downloader 3 img_init_state
       ''https://www.hotel.com/img/flaky.jpg''
     = (img_init_state\<lparr>sleeps := [1, 2], img_requests := 9\<rparr>, Some False)
   \<and> download_image demo_env demo_downloader 3 img_init_state
       ''https://www.hotel.com/img/down.jpg''
     = (img_init_state\<lparr>img_requests := 1\<rparr>, Some False)"
  by (simp add: pipeline_no_retry sibling_retries sibling_probe_failure)

section \<open>Facts about the image crawl\<close>

lemma download_image_crawl_visited:
  "visited (download_image_crawl E D st url) = visited st"
  by (simp add: download_image_crawl_def Let_def split: net_result.splits option.splits sum.splits prod.splits)

lemma fold_download_visited:
  "visited (fold (\<lambda>url s. download_image_crawl E D s url) urls st) = visited st"
  by (induction urls arbitrary: st) (simp_all add: download_image_crawl_visited)

lemma download_images_visited: "visited (download_images E D st) = visited st"
  by (simp add: download_images_def fold_download_visited)

lemma set_add_length: "length xs \<le> length (set_add xs x)" "length (set_add xs x) \<le> Suc (length xs)"
  by (simp_all add: set_add_def)

lemma set_add_distinct: "distinct xs \<Longrightarrow> distinct (set_add xs x)"
  by (simp add: set_add_def)

lemma img_process_url_cap:
  "img_process_url fuel E P D st url pr = Some st' \<Longrightarrow> page_cap_ok D st \<Longrightarrow> page_cap_ok D st'"
  and follow_links_cap:
  "follow_links fuel E P D st links = Some st' \<Longrightarrow> page_cap_ok D st \<Longrightarrow> page_cap_ok D st'"
proof (induction fuel E P D st url pr and fuel E P D st links arbitrary: st' and st'
       rule: img_process_url_follow_links.induct)
  case (1 E P D st url is_priority)
  then show ?case by simp
next
  case (2 fuel E P D st url is_priority)
  note run = "2.prems"(1) and ok = "2.prems"(2)
  show ?case
  proof -
    show "page_cap_ok D st'"
    proof (cases "int (length (visited st)) \<ge> max_pages D \<or> url \<in> set (visited st)")
      case True
      then have "st' = st" using run by (auto split: if_splits)
      then show ?thesis using ok by simp
    next
      case False
      let ?st1 = "st\<lparr>visited := set_add (visited st) url,
                       img_requests := Suc (img_requests st)\<rparr>"
      have ok1: "page_cap_ok D ?st1"
        using ok False set_add_length(2)[of "visited st" url] set_add_distinct[of "visited st" url]
        by (auto simp: page_cap_ok_def)
      show ?thesis
      proof (cases "P (img_requests st) url")
        case FetchFailed
        then show ?thesis using run False ok1
          by (auto simp: page_cap_ok_def download_images_visited)
      next
        case (Parsed pg)
        let ?st2 = "?st1\<lparr>image_urls := fold (\<lambda>u xs. set_add xs u) (found_images pg)
                                               (image_urls ?st1)\<rparr>"
        have ok2: "page_cap_ok D ?st2" using ok1 by (simp add: page_cap_ok_def)
        show ?thesis
        proof (cases "images_raised pg \<or> \<not> is_priority")
          case True
          then show ?thesis using run False Parsed ok2
            by (auto simp: page_cap_ok_def download_images_visited Let_def)
        next
          case nofail: False
          obtain st3 where f: "follow_links fuel E P D ?st2 (priority_links pg) = Some st3"
            and st': "st' = download_images E D st3"
            using run False Parsed nofail by (auto simp: Let_def split: option.splits)
          have "page_cap_ok D st3"
            using "2.IH"[of ?st1 pg ?st2 st3] False Parsed nofail f ok2 by auto
          then show ?thesis using st' by (simp add: page_cap_ok_def download_images_visited)
        qed
      qed
    qed
  qed
next
  case (3 fuel E P D st)
  then show ?case by simp
next
  case (4 fuel E P D st absolute_url links)
  note run = "4.prems"(1) and ok = "4.prems"(2)
  show ?case
  proof -
    show "page_cap_ok D st'"
    proof (cases "urlparse (lib E) absolute_url")
      case (Inl e)
      then show ?thesis using run ok by simp
    next
      case (Inr parsed)
      show ?thesis
      proof (cases "netloc parsed = domain D \<and> absolute_url \<notin> set (visited st)")
        case True
        show ?thesis
        proof (cases "img_delay D < 0")
          case neg: True
          then show ?thesis using run Inr True ok by simp
        next
          case nonneg: False
          obtain st1 where p: "img_process_url fuel E P D st absolute_url True = Some st1"
            and r: "follow_links fuel E P D st1 links = Some st'"
            using run Inr True nonneg by (auto split: option.splits)
          have "page_cap_ok D st1" using "4.IH"(1)[of parsed st1] Inr True nonneg p ok by auto
          then show ?thesis using "4.IH"(2)[of parsed st1 st'] Inr True nonneg p r by auto
        qed
      next
        case False
        then show ?thesis using "4.IH"(3)[of parsed st'] run Inr ok by auto
      qed
    qed
  qed
qed

lemma img_process_url_returns:
  "nat (max_pages D) - length (visited st) < fuel \<Longrightarrow>
     \<exists>st'. img_process_url fuel E P D st url pr = Some st'
           \<and> length (visited st) \<le> length (visited st')"
  and follow_links_returns:
  "nat (max_pages D) - length (visited st) < fuel \<Longrightarrow>
     \<exists>st'. follow_links fuel E P D st links = Some st'
           \<and> length (visited st) \<le> length (visited st')"
proof (induction fuel E P D st url pr and fuel E P D st links
       rule: img_process_url_follow_links.induct)
  case (1 E P D st url is_priority)
  then show ?case by simp
next
  case (2 fuel E P D st url is_priority)
  show ?case
  proof (cases "int (length (visited st)) \<ge> max_pages D \<or> url \<in> set (visited st)")
    case True
    then show ?thesis by auto
  next
    case False
    let ?st1 = "st\<lparr>visited := set_add (visited st) url,
                     img_requests := Suc (img_requests st)\<rparr>"
    have len1: "length (visited ?st1) = Suc (length (visited st))"
      using False by (simp add: set_add_def)
    show ?thesis
    proof (cases "P (img_requests st) url")
      case FetchFailed
      then show ?thesis using False len1 by (simp add: download_images_visited)
    next
      case (Parsed pg)
      let ?st2 = "?st1\<lparr>image_urls := fold (\<lambda>u xs. set_add xs u) (found_images pg)
                                             (image_urls ?st1)\<rparr>"
      have len2: "length (visited ?st2) = Suc (length (visited st))" using len1 by simp
      show ?thesis
      proof (cases "images_raised pg \<or> \<not> is_priority")
        case True
        then show ?thesis using False Parsed len2
          by (auto simp: download_images_visited Let_def)
      next
        case nofail: False
        have a: "nat (max_pages D) - length (visited ?st2) < fuel"
          using "2.prems" False len2 by auto
        obtain st3 where f: "follow_links fuel E P D ?st2 (priority_links pg) = Some st3"
          and m: "length (visited ?st2) \<le> length (visited st3)"
          using "2.IH"[of ?st1 pg ?st2] False Parsed nofail a by auto
        show ?thesis using False Parsed nofail f m len2
          by (auto simp: download_images_visited Let_def)
      qed
    qed
  qed
next
  case (3 fuel E P D st)
  then show ?case by simp
next
  case (4 fuel E P D st absolute_url links)
  show ?case
  proof (cases "urlparse (lib E) absolute_url")
    case (Inl e)
    then show ?thesis by simp
  next
    case (Inr parsed)
    show ?thesis
    proof (cases "netloc parsed = domain D \<and> absolute_url \<notin> set (visited st)")
      case True
      show ?thesis
      proof (cases "img_delay D < 0")
        case neg: True
        then show ?thesis using Inr True by simp
      next
        case nonneg: False
        obtain st1 where p: "img_process_url fuel E P D st absolute_url True = Some st1"
          and m: "length (visited st) \<le> length (visited st1)"
          using "4.IH"(1)[of parsed] Inr True nonneg "4.prems" by auto
        have a: "nat (max_pages D) - length (visited st1) < fuel" using "4.prems" m by simp
        obtain st' where r: "follow_links fuel E P D st1 links = Some st'"
          and m2: "length (visited st1) \<le> length (visited st')"
          using "4.IH"(2)[of parsed st1] Inr True nonneg p a by auto
        show ?thesis using Inr True nonneg p r m m2 by simp
      qed
    next
      case False
      then show ?thesis using "4.IH"(3)[of parsed] Inr "4.prems" by auto
    qed
  qed
qed

lemma crawl_priority_pages_cap:
  "crawl_priority_pages fuel E P D st urls = Some st' \<Longrightarrow> page_cap_ok D st
   \<Longrightarrow> page_cap_ok D st'"
proof (induction urls arbitrary: st)
  case Nil
  then show ?case by simp
next
  case (Cons url urls)
  show ?case
  proof (cases "url \<notin> set (visited st) \<and> int (length (visited st)) < max_pages D")
    case True
    obtain st1 where p: "img_process_url fuel E P D st url True = Some st1"
      and r: "crawl_priority_pages fuel E P D st1 urls = Some st'"
      using Cons.prems(1) True by (auto split: option.splits)
    show ?thesis using Cons.IH[OF r] img_process_url_cap[OF p Cons.prems(2)] by simp
  next
    case False
    then show ?thesis using Cons by auto
  qed
qed

lemma crawl_priority_pages_returns:
  "nat (max_pages D) - length (visited st) < fuel \<Longrightarrow>
     \<exists>st'. crawl_priority_pages fuel E P D st urls = Some st'"
proof (induction urls arbitrary: st)
  case Nil
  then show ?case by simp
next
  case (Cons url urls)
  show ?case
  proof (cases "url \<notin> set (visited st) \<and> int (length (visited st)) < max_pages D")
    case True
    obtain st1 where p: "img_process_url fuel E P D st url True = Some st1"
      and m: "length (visited st) \<le> length (visited st1)"
      using img_process_url_returns[OF Cons.prems, of E P url True] by auto
    have "nat (max_pages D) - length (visited st1) < fuel" using Cons.prems m by simp
    then show ?thesis using Cons.IH[of st1] True p by simp
  next
    case False
    then show ?thesis using Cons by auto
  qed
qed

lemma page_cap_ok_init: "page_cap_ok D (img_init_state\<lparr>img_requests := n\<rparr>)"
  by (simp add: page_cap_ok_def img_init_state_def)

lemma img_crawl_cap:
  assumes "img_crawl fuel E P D = Some st"
  shows "page_cap_ok D st"
proof -
  let ?st0 = "img_init_state\<lparr>img_requests := 1\<rparr>"
  obtain st1 where p: "img_process_url fuel E P D ?st0 (img_base_url D) True = Some st1"
    and r: "crawl_priority_pages fuel E P D st1
              (identify_priority_pages E P D 0 (img_base_url D)) = Some st"
    using assms by (auto simp: img_crawl_def Let_def split: option.splits)
  show ?thesis
    using crawl_priority_pages_cap[OF r] img_process_url_cap[OF p page_cap_ok_init] by simp
qed

lemma img_crawl_returns:
  assumes "nat (max_pages D) < fuel"
  shows "\<exists>st. img_crawl fuel E P D = Some st"
proof -
  let ?st0 = "img_init_state\<lparr>img_requests := 1\<rparr>"
  have f0: "nat (max_pages D) - length (visited ?st0) < fuel"
    using assms by (simp add: img_init_state_def)
  obtain st1 where p: "img_process_url fuel E P D ?st0 (img_base_url D) True = Some st1"
    and m: "length (visited ?st0) \<le> length (visited st1)"
    using img_process_url_returns[OF f0, of E P "img_base_url D" True] by auto
  have "nat (max_pages D) - length (visited st1) < fuel" using assms by simp
  then obtain st where "crawl_priority_pages fuel E P D st1
              (identify_priority_pages E P D 0 (img_base_url D)) = Some st"
    using crawl_priority_pages_returns by blast
  then show ?thesis using p by (simp add: img_crawl_def Let_def)
qed

section \<open>C2: the page cap\<close>

lemma img_crawl_demo:
  "img_crawl 4 demo_env demo_pages demo_downloader
   = Some \<lparr>visited = [''https://www.hotel.com'', ''https://www.hotel.com/rooms'',
                        ''https://www.hotel.com/suites''],
             image_urls = [], downloaded_count = 0, files = [], sleeps = [],
             img_requests = 4\<rparr>"
  by (simp add: img_crawl_def identify_priority_pages_def download_images_def
        demo_pages_def demo_menu_def demo_env_fields img_init_state_def set_add_def
        numeral_eq_Suc
        parse_home parse_rooms parse_suites parse_dining parse_spa parse_gallery parse_contact parse_about parse_offers parse_location parse_events)

text \<open>
  C2, as the code has it. The page cap belongs to \<open>ImageDownloader\<close>: its
  \<open>_process_url\<close> returns at once when \<open>visited\<close> has reached \<open>max_pages\<close>, so at
  the end of the image crawl \<open>visited\<close> has no repetition and at most \<open>max_pages\<close>
  entries; and the image crawl does end: with fuel above \<open>max_pages\<close> the model returns.
\<close>

theorem image_crawl_page_cap:
  "(img_crawl fuel E P D = Some st \<longrightarrow>
      distinct (visited st) \<and> int (length (visited st)) \<le> max 0 (max_pages D))
   \<and> (nat (max_pages D) < fuel \<longrightarrow> img_crawl fuel E P D \<noteq> None)
   \<and> (max_pages D \<le> int (length (visited st0)) \<longrightarrow>
        img_process_url (Suc fuel0) E P D st0 url pr = Some st0)"
  using img_crawl_cap[of fuel E P D st] img_crawl_returns[of D fuel E P]
  by (auto simp: page_cap_ok_def)

theorem image_crawl_page_cap_witness:
  "max_pages demo_downloader = 3
   \<and> length demo_menu = 10
   \<and> img_crawl 4 demo_env demo_pages demo_downloader \<noteq> None
   \<and> visited (the (img_crawl 4 demo_env demo_pages demo_downloader))
       = [''https://www.hotel.com'', ''https://www.hotel.com/rooms'',
          ''https://www.hotel.com/suites'']
   \<and> int (length (visited (the (img_crawl 4 demo_env demo_pages demo_downloader)))) \<le> 3
   \<and> img_process_url (Suc 0) demo_env demo_pages demo_downloader
         (the (img_crawl 4 demo_env demo_pages demo_downloader))
         ''https://www.hotel.com/dining'' True
       = Some (the (img_crawl 4 demo_env demo_pages demo_downloader))"
  using image_crawl_page_cap
          [of 4 demo_env demo_pages demo_downloader
              "the (img_crawl 4 demo_env demo_pages demo_downloader)"
              "the (img_crawl 4 demo_env demo_pages demo_downloader)" 0
              "''https://www.hotel.com/dining''" True]
  by (simp add: img_crawl_demo demo_env_fields demo_menu_def)

text \<open>
  C2 as stated fails for the text crawl: \<open>WebsiteScraper\<close> has no page cap at all. With
  the cap of the pipeline set to 3 and ten links in the menu of the landing page, the
  mapping that \<open>crawl\<close> returns has eleven entries.
\<close>

theorem text_crawl_no_page_cap_counterexample:
  "max_pages demo_downloader = 3
   \<and> length demo_menu = 10
   \<and> map_option (\<lambda>st. length (markdown_content st)) (crawl 1 demo_lib demo_scraper demo_web)
       = Some 11"
proof -
  obtain st where run: "crawl 1 demo_lib demo_scraper demo_web = Some st"
    and keys: "map fst (markdown_content st) = ''https://www.hotel.com'' # demo_menu"
    using crawl_demo by (cases "crawl 1 demo_lib demo_scraper demo_web") auto
  have "length (markdown_content st) = length (''https://www.hotel.com'' # demo_menu)"
    using keys by (metis length_map)
  then show ?thesis using run by (simp add: demo_menu_def demo_env_fields)
qed

end
